theory Spec2Isabelle
  imports Main
begin

section \<open>PackSafe: the dependency scan of the server\<close>

text \<open>
  The development follows the scan route of the server (\<^verbatim>\<open>router.post('/package-json')\<close>
  with \<^verbatim>\<open>analyzeDependencies\<close>, \<^verbatim>\<open>getLatestVersion\<close>, \<^verbatim>\<open>isNewerVersion\<close>,
  \<^verbatim>\<open>calculateUpdateSeverity\<close> and \<^verbatim>\<open>checkVulnerabilities\<close>; the source is the TypeScript
  module that follows the deployment notes in \<^verbatim>\<open>packages/server/DEPLOY.md\<close>), the project
  controller (\<^verbatim>\<open>getProjectStatusByName\<close>), the schemas of the scan results and of the
  projects, and the cleaning step of \<^verbatim>\<open>LocalScanner.scanFile\<close>, which is the one of the
  route. A JavaScript string is modelled as a \<^typ>\<open>string\<close> with one \<^typ>\<open>char\<close> per
  UTF-16 code unit: the model covers the strings whose code units are below 256, which
  include every character the code tests for.
\<close>

subsection \<open>Cleaning a declared version range\<close>

text \<open>
  \<^verbatim>\<open>const cleanVersion = version.replace(/[\^~>=<]/g, '');\<close>
  A global replacement of every character of the class by the empty string.
\<close>

definition rangeOperators :: "char list" where
  "rangeOperators = [CHR ''^'', CHR ''~'', CHR ''>'', CHR ''='', CHR ''<'']"

fun cleanVersion :: "string \<Rightarrow> string" where
  "cleanVersion [] = []"
| "cleanVersion (c # cs) =
     (if c \<in> set rangeOperators then cleanVersion cs else c # cleanVersion cs)"

definition isDigit :: "char \<Rightarrow> bool" where
  "isDigit c = (c \<in> set ''0123456789'')"

definition digitsAndDots :: "string \<Rightarrow> bool" where
  "digitsAndDots s = list_all (\<lambda>c. isDigit c \<or> c = CHR ''.'') s"


subsection \<open>JavaScript helpers\<close>

text \<open>\<^verbatim>\<open>s.includes(p)\<close>: \<open>p\<close> occurs in \<open>s\<close> as a contiguous substring.\<close>

fun includesStr :: "string \<Rightarrow> string \<Rightarrow> bool" where
  "includesStr [] p = (p = [])"
| "includesStr (c # cs) p = (take (length p) (c # cs) = p \<or> includesStr cs p)"

text \<open>
  \<^verbatim>\<open>a < b\<close> on two strings: lexicographic on code units, a proper prefix being smaller.
  \<^verbatim>\<open>a >= b\<close> on two strings is the negation of \<^verbatim>\<open>a < b\<close>.
\<close>

fun strLess :: "string \<Rightarrow> string \<Rightarrow> bool" where
  "strLess [] [] = False"
| "strLess [] (y # ys) = True"
| "strLess (x # xs) [] = False"
| "strLess (x # xs) (y # ys) =
     (if (of_char x :: nat) < of_char y then True
      else if (of_char y :: nat) < of_char x then False
      else strLess xs ys)"

definition strGreaterEq :: "string \<Rightarrow> string \<Rightarrow> bool" where
  "strGreaterEq a b = (\<not> strLess a b)"

text \<open>
  \<^verbatim>\<open>s.trim()\<close>: the white space and line terminators of JavaScript below 256 are
  removed from both ends.
\<close>

definition isWhiteSpace :: "char \<Rightarrow> bool" where
  "isWhiteSpace c =
     (c \<in> set [CHR 0x09, CHR 0x0A, CHR 0x0B, CHR 0x0C, CHR 0x0D, CHR 0x20, CHR 0xA0])"

definition trim :: "string \<Rightarrow> string" where
  "trim s = rev (dropWhile isWhiteSpace (rev (dropWhile isWhiteSpace s)))"

text \<open>\<^verbatim>\<open>s.split('.')\<close>: always at least one piece; the empty string gives one empty piece.\<close>

fun splitDot :: "string \<Rightarrow> string list" where
  "splitDot [] = [[]]"
| "splitDot (c # cs) =
     (if c = CHR ''.'' then [] # splitDot cs
      else (case splitDot cs of
              [] \<Rightarrow> [[c]]
            | p # ps \<Rightarrow> (c # p) # ps))"

definition digitValue :: "char \<Rightarrow> nat" where
  "digitValue c = of_char c - 48"

definition digitsValue :: "string \<Rightarrow> nat" where
  "digitsValue s = foldl (\<lambda>n c. 10 * n + digitValue c) 0 s"

text \<open>
  \<^verbatim>\<open>Number(s)\<close> on one piece of a split version is known exactly when the piece is a
  string of decimal digits whose value is below \<open>2 ^ 53\<close> (every such integer is a double;
  the empty string is 0). \<^verbatim>\<open>Number\<close> rounds greater digit strings and accepts other
  literals (surrounding white space, a sign, an exponent, a radix prefix, \<^verbatim>\<open>Infinity\<close>):
  on those the comparison of two numbers is left to the environment, see \<open>pieceGreater\<close>.
\<close>

definition exactNumber :: "string \<Rightarrow> bool" where
  "exactNumber s = (list_all isDigit s \<and> int (digitsValue s) < 2 ^ 53)"

definition plainNumber :: "string \<Rightarrow> bool" where
  "plainNumber s = (s \<noteq> [] \<and> list_all isDigit s \<and> int (digitsValue s) < 2 ^ 53)"

text \<open>The piece at a position of a destructuring pattern, \<open>None\<close> for \<^verbatim>\<open>undefined\<close>.\<close>

definition nthPiece :: "string list \<Rightarrow> nat \<Rightarrow> string option" where
  "nthPiece ps i = (if i < length ps then Some (ps ! i) else None)"

text \<open>
  A JavaScript object used as a dictionary: an association list with one entry per key.
  \<^verbatim>\<open>obj[k] = v\<close> replaces the value of a key it has and appends a new key otherwise;
  \<^verbatim>\<open>Object.keys(obj).length\<close> is the length of the list. (Integer-like keys are
  enumerated first by JavaScript; no statement below depends on the order.)
\<close>

fun assign :: "'k \<Rightarrow> 'v \<Rightarrow> ('k \<times> 'v) list \<Rightarrow> ('k \<times> 'v) list" where
  "assign k v [] = [(k, v)]"
| "assign k v ((k', v') # kvs) =
     (if k = k' then (k, v) # kvs else (k', v') # assign k v kvs)"

text \<open>
  \<^verbatim>\<open>obj[k] = v\<close> on an object literal, for any key: the key \<^verbatim>\<open>__proto__\<close> is the
  accessor of \<^verbatim>\<open>Object.prototype\<close>, so assigning an object to it replaces the prototype
  and adds no key.
\<close>

definition setProperty :: "string \<Rightarrow> 'v \<Rightarrow> (string \<times> 'v) list \<Rightarrow> (string \<times> 'v) list" where
  "setProperty k v obj = (if k = ''__proto__'' then obj else assign k v obj)"

text \<open>\<^verbatim>\<open>{ ...a, ...b }\<close>: the entries of \<open>a\<close>, then those of \<open>b\<close>, the later value winning
  (a spread defines \<^verbatim>\<open>__proto__\<close> as a key like any other).\<close>

definition spread :: "('k \<times> 'v) list \<Rightarrow> ('k \<times> 'v) list \<Rightarrow> ('k \<times> 'v) list" where
  "spread a b = foldl (\<lambda>acc kv. assign (fst kv) (snd kv) acc) [] (a @ b)"

subsection \<open>Data of a scan\<close>

datatype severity = Low | Medium | High

datatype outdatedInfo =
  OutdatedInfo (current: string) (latest: string) (severity: severity)

record vulnerabilityInfo =
  vulnId :: string
  vulnSeverity :: string
  description :: string
  references :: "string list option"

text \<open>
  What \<open>checkVulnerabilities\<close> returns when it finds something: a record of the table or
  of an advisory, or a member that the table inherits from \<^verbatim>\<open>Object.prototype\<close> (a
  function or the prototype itself).
\<close>

datatype vulnerabilityValue = Details vulnerabilityInfo | InheritedMember

text \<open>An entry \<^verbatim>\<open>{current, vulnerability}\<close> of the vulnerable map: with a record, or with
  an inherited member in the place of the record.\<close>

datatype vulnerableInfo =
  VulnerableInfo (vulnCurrent: string) (vulnerability: vulnerabilityInfo)
| VulnerableMember (memberCurrent: string)

text \<open>Reading a property of a built-in object: the value is truthy, or it is falsy or
  missing, or the read throws.\<close>

datatype memberRead = Truthy | Falsy | Throws

text \<open>What an axios call can reject with: \<^verbatim>\<open>error.response?.status\<close> and
  \<^verbatim>\<open>error.response?.data?.message\<close>, each possibly missing.\<close>

record httpError =
  status :: "nat option"
  message :: "string option"

datatype error = TypeError | HttpFailure httpError

text \<open>The answer of the npm registry: the request fails, or it carries
  \<^verbatim>\<open>data?.['dist-tags']?.latest\<close> when that is there.\<close>

datatype registryResponse = RegistryError | RegistryData "string option"

text \<open>An advisory as \<open>checkVulnerabilities\<close> reads it.\<close>

record event =
  introduced :: "string option"
  fixed :: "string option"

record affectedRange =
  rangeType :: string
  events :: "event list"

record affected =
  packageName :: "string option"
  ranges :: "affectedRange list option"

record advisory =
  advisoryId :: "string option"
  advisorySeverity :: "string option"
  summary :: "string option"
  advisoryReferences :: "string list option"
  affectedPackage :: "affected option"

text \<open>The answer of the advisory API: the request fails with an error, or it carries
  \<^verbatim>\<open>response.data\<close>, \<open>None\<close> when that is not an array.\<close>

datatype advisoryResponse = AdvisoryError httpError | AdvisoryData "advisory list option"

datatype call = RegistryGet string | AdvisoryGet string

text \<open>
  Everything outside the repository that a scan depends on:
  \<^item> the two remote services (one answer per package name: a scan asks for each name at
    most once);
  \<^item> the \<^verbatim>\<open>compareVersions\<close> function of the npm package \<^verbatim>\<open>compare-versions\<close> (\<open>None\<close>:
    it throws);
  \<^item> \<open>runtimeMember n v\<close>: what reading the property \<open>v\<close> of the member \<open>n\<close> of
    \<^verbatim>\<open>Object.prototype\<close> gives (the properties of the built-in functions depend on the
    runtime);
  \<^item> \<open>numberGreater a b\<close>: the value of \<^verbatim>\<open>Number(a) > Number(b)\<close> for two pieces of which
    one is not a string of digits below \<open>2 ^ 53\<close>;
  \<^item> the string \<^verbatim>\<open>Math.random().toString(36).substr(2, 8)\<close> gives;
  \<^item> the clock read by the handler (\<^verbatim>\<open>new Date().toISOString()\<close>) and the clock read when
    the document is built (the default \<^verbatim>\<open>Date.now\<close> of \<^verbatim>\<open>scanDate\<close>);
  \<^item> whether the database accepts a \<^verbatim>\<open>save()\<close>.
\<close>

record env =
  registry :: "string \<Rightarrow> registryResponse"
  advisoryApi :: "string \<Rightarrow> advisoryResponse"
  compareVersions :: "string \<Rightarrow> string \<Rightarrow> int option"
  runtimeMember :: "string \<Rightarrow> string \<Rightarrow> memberRead"
  numberGreater :: "string \<Rightarrow> string \<Rightarrow> bool"
  randomSuffix :: string
  clock :: string
  documentClock :: string
  saveSucceeds :: bool

text \<open>
  \<^verbatim>\<open>Number(a) > Number(b)\<close> for two pieces. \<^verbatim>\<open>undefined\<close> becomes \<^verbatim>\<open>NaN\<close>, which is
  greater than nothing and which nothing is greater than.
\<close>

definition pieceGreater :: "env \<Rightarrow> string option \<Rightarrow> string option \<Rightarrow> bool" where
  "pieceGreater e a b =
     (case a of
        None \<Rightarrow> False
      | Some x \<Rightarrow>
          (case b of
             None \<Rightarrow> False
           | Some y \<Rightarrow>
               if exactNumber x \<and> exactNumber y then digitsValue y < digitsValue x
               else numberGreater e x y))"

subsection \<open>The helpers of the route\<close>

text \<open>
  \<^verbatim>\<open>getLatestVersion\<close>: a failed request is caught and gives \<^verbatim>\<open>null\<close>; otherwise
  \<^verbatim>\<open>response.data?.['dist-tags']?.latest || null\<close>, so an empty string is \<^verbatim>\<open>null\<close> too.
\<close>

definition getLatestVersion :: "env \<Rightarrow> string \<Rightarrow> string option" where
  "getLatestVersion e name =
     (case registry e name of
        RegistryError \<Rightarrow> None
      | RegistryData None \<Rightarrow> None
      | RegistryData (Some l) \<Rightarrow> (if l = [] then None else Some l))"

text \<open>
  \<^verbatim>\<open>isNewerVersion(versionA, versionB)\<close>: \<^verbatim>\<open>compareVersions(versionB, versionA) > 0\<close>,
  and \<^verbatim>\<open>false\<close> when the comparison throws.
\<close>

definition isNewerVersion :: "env \<Rightarrow> string \<Rightarrow> string \<Rightarrow> bool" where
  "isNewerVersion e versionA versionB =
     (case compareVersions e versionB versionA of
        None \<Rightarrow> False
      | Some r \<Rightarrow> 0 < r)"

text \<open>
  \<^verbatim>\<open>calculateUpdateSeverity\<close>: the first two pieces of each version, compared as numbers.
  Nothing in the body throws, so the \<^verbatim>\<open>catch\<close> branch is never taken.
\<close>

definition calculateUpdateSeverity :: "env \<Rightarrow> string \<Rightarrow> string \<Rightarrow> severity" where
  "calculateUpdateSeverity e currentVersion latestVersion =
     (let cs = splitDot currentVersion;
          ls = splitDot latestVersion;
          currentMajor = nthPiece cs 0;
          currentMinor = nthPiece cs 1;
          latestMajor = nthPiece ls 0;
          latestMinor = nthPiece ls 1
      in if pieceGreater e latestMajor currentMajor then High
         else if pieceGreater e latestMinor currentMinor then Medium
         else Low)"

text \<open>The table inside \<^verbatim>\<open>checkVulnerabilities\<close>: its own keys and their own keys.\<close>

definition knownVulnerablePackages :: "(string \<times> (string \<times> vulnerabilityInfo) list) list" where
  "knownVulnerablePackages =
     [(''lodash'',
        [(''4.17.0'',
          \<lparr>vulnId = ''CVE-2019-10744'', vulnSeverity = ''high'',
           description = ''Prototype pollution vulnerability in Lodash'',
           references = None\<rparr>)]),
      (''axios'',
        [(''0.19.0'',
          \<lparr>vulnId = ''CVE-2020-28168'', vulnSeverity = ''medium'',
           description = ''Axios SSRF vulnerability'',
           references = None\<rparr>)])]"

definition knownVulnerability :: "string \<Rightarrow> string \<Rightarrow> vulnerabilityInfo option" where
  "knownVulnerability name version =
     (case map_of knownVulnerablePackages name of
        None \<Rightarrow> None
      | Some versions \<Rightarrow> map_of versions version)"

text \<open>The string keys of \<^verbatim>\<open>Object.prototype\<close>, which every object literal inherits.\<close>

definition objectPrototypeMembers :: "string list" where
  "objectPrototypeMembers =
     [''constructor'', ''__defineGetter__'', ''__defineSetter__'', ''hasOwnProperty'',
      ''__lookupGetter__'', ''__lookupSetter__'', ''isPrototypeOf'',
      ''propertyIsEnumerable'', ''toString'', ''valueOf'', ''__proto__'',
      ''toLocaleString'']"

text \<open>
  \<^verbatim>\<open>knownVulnerablePackages[packageName]?.[version]\<close>, as the \<^verbatim>\<open>if\<close> reads it: \<open>Inr None\<close>
  when the value is \<^verbatim>\<open>undefined\<close> or falsy. For a package of the table, a version of the
  table gives its record, and a version that names a member of \<^verbatim>\<open>Object.prototype\<close>
  gives that member, which is truthy. For a package name that itself names a member of
  \<^verbatim>\<open>Object.prototype\<close> the first read gives that member, and the second read is the
  runtime's. Any other package name gives \<^verbatim>\<open>undefined\<close>.
\<close>

definition tableLookup :: "env \<Rightarrow> string \<Rightarrow> string \<Rightarrow> error + vulnerabilityValue option" where
  "tableLookup e name version =
     (case map_of knownVulnerablePackages name of
        Some versions \<Rightarrow>
          (case map_of versions version of
             Some v \<Rightarrow> Inr (Some (Details v))
           | None \<Rightarrow>
               if version \<in> set objectPrototypeMembers then Inr (Some InheritedMember)
               else Inr None)
      | None \<Rightarrow>
          if name \<in> set objectPrototypeMembers
          then (case runtimeMember e name version of
                  Truthy \<Rightarrow> Inr (Some InheritedMember)
                | Falsy \<Rightarrow> Inr None
                | Throws \<Rightarrow> Inl TypeError)
          else Inr None)"

text \<open>
  The test made on one range of an advisory:
  \<^verbatim>\<open>range.type === 'SEMVER' && version >= range.events[0].introduced &&
  (!range.events[1]?.fixed || version < range.events[1].fixed)\<close>.
  Reading \<^verbatim>\<open>.introduced\<close> of a missing first event throws; a missing \<^verbatim>\<open>introduced\<close> is
  \<^verbatim>\<open>undefined\<close>, which no string is greater than or equal to; an empty \<^verbatim>\<open>fixed\<close> counts
  as no \<^verbatim>\<open>fixed\<close>.
\<close>

definition rangeAffects :: "string \<Rightarrow> affectedRange \<Rightarrow> error + bool" where
  "rangeAffects version r =
     (if rangeType r \<noteq> ''SEMVER'' then Inr False
      else (case events r of
              [] \<Rightarrow> Inl TypeError
            | e0 # rest \<Rightarrow>
                (case introduced e0 of
                   None \<Rightarrow> Inr False
                 | Some i \<Rightarrow>
                     if \<not> strGreaterEq version i then Inr False
                     else (case rest of
                             [] \<Rightarrow> Inr True
                           | e1 # _ \<Rightarrow>
                               (case fixed e1 of
                                  None \<Rightarrow> Inr True
                                | Some f \<Rightarrow>
                                    if f = [] then Inr True
                                    else Inr (strLess version f))))))"

text \<open>\<^verbatim>\<open>ranges.some(...)\<close>: stops at the first range that matches or throws.\<close>

fun someRange :: "string \<Rightarrow> affectedRange list \<Rightarrow> error + bool" where
  "someRange version [] = Inr False"
| "someRange version (r # rs) =
     (case rangeAffects version r of
        Inl err \<Rightarrow> Inl err
      | Inr True \<Rightarrow> Inr True
      | Inr False \<Rightarrow> someRange version rs)"

definition advisoryInfo :: "env \<Rightarrow> advisory \<Rightarrow> vulnerabilityInfo" where
  "advisoryInfo e a =
     \<lparr>vulnId = (case advisoryId a of
                  None \<Rightarrow> ''GHSA-'' @ randomSuffix e
                | Some i \<Rightarrow> if i = [] then ''GHSA-'' @ randomSuffix e else i),
      vulnSeverity = (case advisorySeverity a of
                        None \<Rightarrow> ''medium''
                      | Some s \<Rightarrow> if s = [] then ''medium'' else s),
      description = (case summary a of
                       None \<Rightarrow> ''Security vulnerability detected''
                     | Some d \<Rightarrow> if d = [] then ''Security vulnerability detected'' else d),
      references = (case advisoryReferences a of
                      None \<Rightarrow> Some []
                    | Some rs \<Rightarrow> Some rs)\<rparr>"

text \<open>
  The loop over the advisories: the first advisory for this package with a matching
  range is returned; \<^verbatim>\<open>advisory.affected.ranges.some\<close> throws when \<^verbatim>\<open>ranges\<close> is missing.
\<close>

fun findAdvisory :: "env \<Rightarrow> string \<Rightarrow> string \<Rightarrow> advisory list \<Rightarrow> error + vulnerabilityInfo option" where
  "findAdvisory e name version [] = Inr None"
| "findAdvisory e name version (a # as) =
     (case affectedPackage a of
        None \<Rightarrow> findAdvisory e name version as
      | Some af \<Rightarrow>
          if packageName af \<noteq> Some name then findAdvisory e name version as
          else (case ranges af of
                  None \<Rightarrow> Inl TypeError
                | Some rs \<Rightarrow>
                    (case someRange version rs of
                       Inl err \<Rightarrow> Inl err
                     | Inr True \<Rightarrow> Inr (Some (advisoryInfo e a))
                     | Inr False \<Rightarrow> findAdvisory e name version as)))"

text \<open>The inner \<^verbatim>\<open>try\<close> block of \<open>checkVulnerabilities\<close>: the request and the loop.\<close>

definition queryAdvisories :: "env \<Rightarrow> string \<Rightarrow> string \<Rightarrow> error + vulnerabilityInfo option" where
  "queryAdvisories e name version =
     (case advisoryApi e name of
        AdvisoryError h \<Rightarrow> Inl (HttpFailure h)
      | AdvisoryData None \<Rightarrow> Inr None
      | AdvisoryData (Some advisories) \<Rightarrow> findAdvisory e name version advisories)"

text \<open>
  \<^verbatim>\<open>checkVulnerabilities\<close>, with the requests it makes. The table is read first and
  answers without a request. The inner \<^verbatim>\<open>catch\<close> logs whatever the inner block threw
  (the rate-limit answer like any other) and falls through to \<^verbatim>\<open>return null\<close>; the
  outer \<^verbatim>\<open>catch\<close>, which also holds the read of the table, returns \<^verbatim>\<open>null\<close> as well.
\<close>

definition checkVulnerabilities ::
  "env \<Rightarrow> string \<Rightarrow> string \<Rightarrow> (error + vulnerabilityValue option) \<times> call list" where
  "checkVulnerabilities e name version =
     (case tableLookup e name version of
        Inl err \<Rightarrow> (Inr None, [])
      | Inr (Some v) \<Rightarrow> (Inr (Some v), [])
      | Inr None \<Rightarrow>
          (case queryAdvisories e name version of
             Inl err \<Rightarrow> (Inr None, [AdvisoryGet name])
           | Inr None \<Rightarrow> (Inr None, [AdvisoryGet name])
           | Inr (Some info) \<Rightarrow> (Inr (Some (Details info)), [AdvisoryGet name])))"

text \<open>The test \<open>analyzeDependencies\<close> makes on an error thrown by \<open>checkVulnerabilities\<close>.\<close>

definition isRateLimitError :: "error \<Rightarrow> bool" where
  "isRateLimitError err =
     (case err of
        TypeError \<Rightarrow> False
      | HttpFailure h \<Rightarrow>
          status h = Some 403 \<and>
          (case message h of
             None \<Rightarrow> False
           | Some m \<Rightarrow> includesStr m ''rate limit exceeded''))"


subsection \<open>analyzeDependencies\<close>

text \<open>
  The three variables of \<open>analyzeDependencies\<close>, and the requests made so far (a
  ghost field: the code keeps no such list; its order is the order in which the model
  runs the bodies).
\<close>

record analysis =
  outdated :: "(string \<times> outdatedInfo) list"
  vulnerable :: "(string \<times> vulnerableInfo) list"
  rateLimited :: bool
  calls :: "call list"

definition initialAnalysis :: analysis where
  "initialAnalysis = \<lparr>outdated = [], vulnerable = [], rateLimited = False, calls = []\<rparr>"

text \<open>
  The body of the function mapped over a batch, for one entry. Nothing between the
  outer \<^verbatim>\<open>try\<close> and the vulnerability check throws (\<open>getLatestVersion\<close> and
  \<open>isNewerVersion\<close> catch their own errors), so the outer \<^verbatim>\<open>catch\<close> has no branch here.
\<close>

definition processPackage :: "env \<Rightarrow> analysis \<Rightarrow> string \<times> string \<Rightarrow> analysis" where
  "processPackage e st entry =
     (let name = fst entry;
          cleanV = cleanVersion (snd entry);
          latestVersion = getLatestVersion e name;
          st1 = st\<lparr>calls := calls st @ [RegistryGet name]\<rparr>;
          st2 = (case latestVersion of
                   None \<Rightarrow> st1
                 | Some l \<Rightarrow>
                     if isNewerVersion e cleanV l
                     then st1\<lparr>outdated :=
                            setProperty name
                              (OutdatedInfo cleanV l (calculateUpdateSeverity e cleanV l))
                              (outdated st1)\<rparr>
                     else st1)
      in if \<not> rateLimited st2
         then (let res = checkVulnerabilities e name cleanV;
                   st3 = st2\<lparr>calls := calls st2 @ snd res\<rparr>
               in case fst res of
                    Inr None \<Rightarrow> st3
                  | Inr (Some (Details info)) \<Rightarrow>
                      st3\<lparr>vulnerable :=
                            setProperty name (VulnerableInfo cleanV info) (vulnerable st3)\<rparr>
                  | Inr (Some InheritedMember) \<Rightarrow>
                      st3\<lparr>vulnerable :=
                            setProperty name (VulnerableMember cleanV) (vulnerable st3)\<rparr>
                  | Inl err \<Rightarrow>
                      if isRateLimitError err then st3\<lparr>rateLimited := True\<rparr> else st3)
         else st2)"

text \<open>
  One batch. The code starts the five bodies together and awaits them all; they
  interleave only at their requests, each writes only its own key of the two result
  objects, and the one variable a body reads that another may write is the flag
  \<open>rateLimited\<close>. The model runs the bodies of a batch one after the other, in the order
  of the entries.
\<close>

definition processBatch :: "env \<Rightarrow> analysis \<Rightarrow> (string \<times> string) list \<Rightarrow> analysis" where
  "processBatch e st batch = foldl (processPackage e) st batch"

definition batchSize :: nat where
  "batchSize = 5"

text \<open>\<^verbatim>\<open>for (let i = 0; i < dependencyEntries.length; i += batchSize)\<close>, batch after batch.\<close>

function analyzeFrom :: "env \<Rightarrow> (string \<times> string) list \<Rightarrow> nat \<Rightarrow> analysis \<Rightarrow> analysis" where
  "analyzeFrom e entries i st =
     (if i < length entries
      then analyzeFrom e entries (i + batchSize)
             (processBatch e st (take batchSize (drop i entries)))
      else st)"
  by pat_completeness auto
termination
  by (relation "measure (\<lambda>(e, entries, i, st). length entries - i)") (auto simp: batchSize_def)

declare analyzeFrom.simps [simp del]

definition analyzeDependencies :: "env \<Rightarrow> (string \<times> string) list \<Rightarrow> analysis" where
  "analyzeDependencies e dependencies = analyzeFrom e dependencies 0 initialAnalysis"

subsection \<open>The route POST /api/scan/package-json\<close>

record packageJson =
  dependencies :: "(string \<times> string) list option"
  devDependencies :: "(string \<times> string) list option"

record scanRequest =
  packageJsonBody :: "packageJson option"
  projectNameBody :: "string option"
  filePathBody :: "string option"
  requestUser :: "string option"

record scanSummary =
  summaryOutdated :: nat
  summaryVulnerable :: nat
  summaryTotal :: nat

text \<open>A document of the collection \<^verbatim>\<open>scanresults\<close>; \<open>docId\<close> is its \<^verbatim>\<open>_id\<close>.\<close>

record scanResult =
  docId :: nat
  userId :: string
  projectName :: string
  filePath :: string
  packageJsonContent :: packageJson
  scanDate :: string
  storedSummary :: scanSummary
  storedOutdated :: "(string \<times> outdatedInfo) list"
  storedVulnerable :: "(string \<times> vulnerableInfo) list"

text \<open>A document of the collection of projects, with the fields the status route reads.\<close>

record project =
  projectOwner :: string
  name :: string
  outdatedCount :: nat
  vulnerabilityCount :: nat
  lastScanned :: string

record database =
  scanresults :: "scanResult list"
  projects :: "project list"
  nextId :: nat

datatype responseBody =
  Failure string
| ScanReport scanSummary string string "(string \<times> outdatedInfo) list"
    "(string \<times> vulnerableInfo) list" "bool option"
| StatusReport nat nat

datatype response = Response (statusCode: nat) (body: responseBody)

definition orDefault :: "string option \<Rightarrow> string \<Rightarrow> string" where
  "orDefault v d = (case v of None \<Rightarrow> d | Some s \<Rightarrow> if s = [] then d else s)"

text \<open>
  \<^verbatim>\<open>new ScanResult({...})\<close>: the schema trims \<^verbatim>\<open>projectName\<close> and, as the handler passes
  no \<^verbatim>\<open>scanDate\<close>, sets it from its default \<^verbatim>\<open>Date.now\<close>.
\<close>

definition newScanResult :: "env \<Rightarrow> scanResult \<Rightarrow> scanResult" where
  "newScanResult e given =
     given\<lparr>projectName := trim (projectName given), scanDate := documentClock e\<rparr>"

text \<open>\<^verbatim>\<open>scanResult.save()\<close>: the document is inserted with an \<^verbatim>\<open>_id\<close> of its own, or the
  call throws and the collection is as it was.\<close>

definition saveScanResult :: "env \<Rightarrow> scanResult \<Rightarrow> database \<Rightarrow> database option" where
  "saveScanResult e doc db =
     (if saveSucceeds e
      then Some (db\<lparr>scanresults := scanresults db @ [doc\<lparr>docId := nextId db\<rparr>],
                    nextId := Suc (nextId db)\<rparr>)
      else None)"

text \<open>
  The handler: the response, the database after it, and the requests it made. The fields
  of \<open>ScanReport\<close> are \<^verbatim>\<open>summary\<close>, \<^verbatim>\<open>details.projectName\<close>, \<^verbatim>\<open>details.scanDate\<close>,
  \<^verbatim>\<open>details.dependencies.outdated\<close>, \<^verbatim>\<open>details.dependencies.vulnerable\<close> and
  \<^verbatim>\<open>warnings.rateLimited\<close> (\<open>None\<close>: the response has no \<^verbatim>\<open>warnings\<close>). For a request
  with a body nothing outside the inner \<^verbatim>\<open>try\<close> throws (\<open>analyzeDependencies\<close> catches its
  own errors), so the outer \<^verbatim>\<open>catch\<close> with its HTTP 500 has no branch here. \<open>doc\<close> is the
  object the handler passes to \<^verbatim>\<open>new ScanResult\<close>, with no \<^verbatim>\<open>scanDate\<close> yet.
\<close>

definition postPackageJson :: "env \<Rightarrow> database \<Rightarrow> scanRequest \<Rightarrow> response \<times> database \<times> call list" where
  "postPackageJson e db req =
     (case packageJsonBody req of
        None \<Rightarrow> (Response 400 (Failure ''Missing package.json data in request body''), db, [])
      | Some pj \<Rightarrow>
          (case requestUser req of
             None \<Rightarrow> (Response 401 (Failure ''User not authenticated''), db, [])
           | Some user \<Rightarrow>
               if user = [] then (Response 401 (Failure ''User not authenticated''), db, [])
               else
                 (let deps = (case dependencies pj of None \<Rightarrow> [] | Some d \<Rightarrow> d);
                      devDeps = (case devDependencies pj of None \<Rightarrow> [] | Some d \<Rightarrow> d);
                      allDependencies = spread deps devDeps;
                      analysisResults = analyzeDependencies e allDependencies;
                      summ = \<lparr>summaryOutdated = length (outdated analysisResults),
                              summaryVulnerable = length (vulnerable analysisResults),
                              summaryTotal = length allDependencies\<rparr>;
                      pname = orDefault (projectNameBody req) ''Unknown Project'';
                      doc = \<lparr>docId = 0, userId = user, projectName = pname,
                             filePath = orDefault (filePathBody req) ''package.json'',
                             packageJsonContent = pj, scanDate = [], storedSummary = summ,
                             storedOutdated = outdated analysisResults,
                             storedVulnerable = vulnerable analysisResults\<rparr>;
                      scanResult = newScanResult e doc;
                      db' = (case saveScanResult e scanResult db of None \<Rightarrow> db | Some d \<Rightarrow> d);
                      warnings = (if rateLimited analysisResults then Some True else None)
                  in (Response 200
                        (ScanReport summ pname (clock e) (outdated analysisResults)
                           (vulnerable analysisResults) warnings),
                      db', calls analysisResults))))"

subsection \<open>The route GET /api/projects/:name/status\<close>



subsection \<open>The numeric triple of the specification\<close>

text \<open>
  The comparison the specification describes: major, minor and patch as three integers,
  a missing component counting as 0, compared component by component.
\<close>

definition component :: "string list \<Rightarrow> nat \<Rightarrow> nat" where
  "component ps i = (if i < length ps then digitsValue (ps ! i) else 0)"

definition versionTriple :: "string \<Rightarrow> nat \<times> nat \<times> nat" where
  "versionTriple v =
     (let ps = splitDot v in (component ps 0, component ps 1, component ps 2))"



fun tripleLess :: "nat \<times> nat \<times> nat \<Rightarrow> nat \<times> nat \<times> nat \<Rightarrow> bool" where
  "tripleLess (a, b, c) (a', b', c') =
     (a < a' \<or> (a = a' \<and> (b < b' \<or> (b = b' \<and> c < c'))))"



text \<open>A version of one to three numeric components, each below \<open>2 ^ 53\<close>.\<close>

definition plainVersion :: "string \<Rightarrow> bool" where
  "plainVersion v =
     (let ps = splitDot v in length ps \<le> 3 \<and> list_all plainNumber ps)"


subsection \<open>The comparator of the package compare-versions\<close>

text \<open>
  \<open>isNewerVersion\<close> calls \<^verbatim>\<open>compareVersions\<close> of the npm package \<^verbatim>\<open>compare-versions\<close>, a
  dependency of the server whose source is not part of the repository. The definitions
  of this subsection follow the published source of the package (version 6):
  \<^verbatim>\<open>validateAndParse\<close> with its regular expression

  \<^verbatim>\<open>/^[v^~<>=]*?(\d+)(?:\.([x*]|\d+)(?:\.([x*]|\d+)(?:\.([x*]|\d+))?(?:-([\da-z\-]+(?:\.[\da-z\-]+)*))?(?:\+[\da-z\-]+(?:\.[\da-z\-]+)*)?)?)?$/i\<close>

  and \<^verbatim>\<open>compareSegments\<close>, \<^verbatim>\<open>compareStrings\<close>, \<^verbatim>\<open>tryParse\<close>, \<^verbatim>\<open>forceType\<close>,
  \<^verbatim>\<open>isWildcard\<close>. \<^verbatim>\<open>parseInt\<close> is known exactly when the integer it reads is below
  \<open>2 ^ 53\<close> in magnitude; beyond, it rounds, and what \<^verbatim>\<open>compareStrings\<close> then returns
  is the parameter \<open>rounded\<close> of the definitions below.
\<close>

definition isPrefixChar :: "char \<Rightarrow> bool" where
  "isPrefixChar c = (c \<in> set ''vV^~<>='')"

definition isIdentChar :: "char \<Rightarrow> bool" where
  "isIdentChar c =
     (isDigit c \<or> c \<in> set ''abcdefghijklmnopqrstuvwxyzABCDEFGHIJKLMNOPQRSTUVWXYZ-'')"

definition isWildcard :: "string \<Rightarrow> bool" where
  "isWildcard s = (s = ''*'' \<or> s = ''x'' \<or> s = ''X'')"

definition isNumeric :: "string \<Rightarrow> bool" where
  "isNumeric s = (s \<noteq> [] \<and> list_all isDigit s)"

definition validSegment :: "string \<Rightarrow> bool" where
  "validSegment s = (isNumeric s \<or> s = ''*'' \<or> s = ''x'' \<or> s = ''X'')"

definition validIdentifiers :: "string \<Rightarrow> bool" where
  "validIdentifiers s = list_all (\<lambda>p. p \<noteq> [] \<and> list_all isIdentChar p) (splitDot s)"

definition notTagStart :: "char \<Rightarrow> bool" where
  "notTagStart c = (c \<noteq> CHR ''-'' \<and> c \<noteq> CHR ''+'')"

text \<open>
  \<^verbatim>\<open>validateAndParse\<close>: the numeric segments (one to four) and the pre-release tag of a
  string the expression matches, \<open>None\<close> when it does not match (the function throws).
  A tag or build suffix is allowed only after a third segment.
\<close>

definition validateAndParse :: "string \<Rightarrow> (string list \<times> string option) option" where
  "validateAndParse v =
     (let rest = dropWhile isPrefixChar v;
          segments = splitDot (takeWhile notTagStart rest);
          suffix = dropWhile notTagStart rest
      in (case segments of
            [] \<Rightarrow> None
          | s0 # others \<Rightarrow>
              if 3 < length others \<or> \<not> isNumeric s0 \<or> \<not> list_all validSegment others
              then None
              else (case suffix of
                      [] \<Rightarrow> Some (segments, None)
                    | c # t \<Rightarrow>
                        if length others < 2 then None
                        else if c = CHR ''+''
                        then (if validIdentifiers t then Some (segments, None) else None)
                        else (let pre = takeWhile (\<lambda>d. d \<noteq> CHR ''+'') t;
                                  build = dropWhile (\<lambda>d. d \<noteq> CHR ''+'') t
                              in if \<not> validIdentifiers pre then None
                                 else (case build of
                                         [] \<Rightarrow> Some (segments, Some pre)
                                       | _ # b \<Rightarrow>
                                           if validIdentifiers b
                                           then Some (segments, Some pre)
                                           else None)))))"

text \<open>\<^verbatim>\<open>parseInt(s, 10)\<close> on a segment or an identifier: an optional minus sign, then the
  longest run of digits; \<open>None\<close> (\<^verbatim>\<open>NaN\<close>) when there is no digit.\<close>

definition parseInt :: "string \<Rightarrow> int option" where
  "parseInt s =
     (case s of
        [] \<Rightarrow> None
      | c # cs \<Rightarrow>
          if c = CHR ''-''
          then (let ds = takeWhile isDigit cs
                in if ds = [] then None else Some (- int (digitsValue ds)))
          else (let ds = takeWhile isDigit s
                in if ds = [] then None else Some (int (digitsValue ds))))"

text \<open>\<^verbatim>\<open>String(n)\<close> for an integer.\<close>

fun showDigits :: "nat \<Rightarrow> nat \<Rightarrow> string" where
  "showDigits 0 n = []"
| "showDigits (Suc fuel) n =
     (if n < 10 then [char_of (48 + n)]
      else showDigits fuel (n div 10) @ [char_of (48 + n mod 10)])"

definition showInt :: "int \<Rightarrow> string" where
  "showInt i =
     (if i < 0 then CHR ''-'' # showDigits (Suc (nat (- i))) (nat (- i))
      else showDigits (Suc (nat i)) (nat i))"

definition strCompare :: "string \<Rightarrow> string \<Rightarrow> int" where
  "strCompare a b = (if strLess b a then 1 else if strLess a b then - 1 else 0)"

definition exactInt :: "int option \<Rightarrow> bool" where
  "exactInt v = (case v of None \<Rightarrow> True | Some i \<Rightarrow> \<bar>i\<bar> < 2 ^ 53)"

text \<open>\<^verbatim>\<open>compareStrings\<close>: a wildcard equals anything; two numbers compare as numbers;
  otherwise both sides are compared as strings (\<^verbatim>\<open>forceType\<close>).\<close>

definition compareStrings :: "(string \<Rightarrow> string \<Rightarrow> int) \<Rightarrow> string \<Rightarrow> string \<Rightarrow> int" where
  "compareStrings rounded a b =
     (if isWildcard a \<or> isWildcard b then 0
      else if \<not> (exactInt (parseInt a) \<and> exactInt (parseInt b)) then rounded a b
      else (case (parseInt a, parseInt b) of
              (Some x, Some y) \<Rightarrow> (if y < x then 1 else if x < y then - 1 else 0)
            | (Some x, None) \<Rightarrow> strCompare (showInt x) b
            | (None, Some y) \<Rightarrow> strCompare a (showInt y)
            | (None, None) \<Rightarrow> strCompare a b))"

text \<open>\<^verbatim>\<open>compareSegments\<close>: position by position up to the longer length, a missing
  position read as \<^verbatim>\<open>'0'\<close>; the first difference decides.\<close>

fun compareSegments :: "(string \<Rightarrow> string \<Rightarrow> int) \<Rightarrow> string list \<Rightarrow> string list \<Rightarrow> int" where
  "compareSegments rounded [] [] = 0"
| "compareSegments rounded (a # as) [] =
     (let r = compareStrings rounded a ''0''
      in if r \<noteq> 0 then r else compareSegments rounded as [])"
| "compareSegments rounded [] (b # bs) =
     (let r = compareStrings rounded ''0'' b
      in if r \<noteq> 0 then r else compareSegments rounded [] bs)"
| "compareSegments rounded (a # as) (b # bs) =
     (let r = compareStrings rounded a b
      in if r \<noteq> 0 then r else compareSegments rounded as bs)"

definition compareVersionsLib ::
  "(string \<Rightarrow> string \<Rightarrow> int) \<Rightarrow> string \<Rightarrow> string \<Rightarrow> int option" where
  "compareVersionsLib rounded v1 v2 =
     (case validateAndParse v1 of
        None \<Rightarrow> None
      | Some (n1, p1) \<Rightarrow>
          (case validateAndParse v2 of
             None \<Rightarrow> None
           | Some (n2, p2) \<Rightarrow>
               (let r = compareSegments rounded n1 n2
                in if r \<noteq> 0 then Some r
                   else (case (p1, p2) of
                           (Some a, Some b) \<Rightarrow>
                             Some (compareSegments rounded (splitDot a) (splitDot b))
                         | (Some a, None) \<Rightarrow> Some (- 1)
                         | (None, Some b) \<Rightarrow> Some 1
                         | (None, None) \<Rightarrow> Some 0))))"

subsection \<open>What one entry contributes\<close>

text \<open>
  The three effects of the body of \<open>processPackage\<close> while the flag \<open>rateLimited\<close> is
  down, each as a function of the entry alone: they serve to state that the outcome for
  a package depends on no other package. An entry named \<^verbatim>\<open>__proto__\<close> adds no key to
  either map.
\<close>

definition outdatedOf :: "env \<Rightarrow> string \<times> string \<Rightarrow> outdatedInfo option" where
  "outdatedOf e entry =
     (let cleanV = cleanVersion (snd entry)
      in if fst entry = ''__proto__'' then None
         else (case getLatestVersion e (fst entry) of
                 None \<Rightarrow> None
               | Some l \<Rightarrow>
                   if isNewerVersion e cleanV l
                   then Some (OutdatedInfo cleanV l (calculateUpdateSeverity e cleanV l))
                   else None))"

definition vulnerableOf :: "env \<Rightarrow> string \<times> string \<Rightarrow> vulnerableInfo option" where
  "vulnerableOf e entry =
     (let cleanV = cleanVersion (snd entry)
      in if fst entry = ''__proto__'' then None
         else (case fst (checkVulnerabilities e (fst entry) cleanV) of
                 Inr (Some (Details info)) \<Rightarrow> Some (VulnerableInfo cleanV info)
               | Inr (Some InheritedMember) \<Rightarrow> Some (VulnerableMember cleanV)
               | Inr None \<Rightarrow> None
               | Inl err \<Rightarrow> None))"

definition callsOf :: "env \<Rightarrow> string \<times> string \<Rightarrow> call list" where
  "callsOf e entry =
     RegistryGet (fst entry) #
       snd (checkVulnerabilities e (fst entry) (cleanVersion (snd entry)))"

definition collect :: "('a \<times> 'b \<Rightarrow> 'c option) \<Rightarrow> ('a \<times> 'b) list \<Rightarrow> ('a \<times> 'c) list" where
  "collect f entries =
     concat (map (\<lambda>entry. case f entry of None \<Rightarrow> [] | Some i \<Rightarrow> [(fst entry, i)]) entries)"

subsection \<open>Scenarios\<close>

text \<open>Concrete environments, manifests and requests, used to run the model.\<close>

definition offlineEnv :: env where
  "offlineEnv =
     \<lparr>registry = (\<lambda>n. RegistryError),
      advisoryApi = (\<lambda>n. AdvisoryError \<lparr>status = None, message = None\<rparr>),
      compareVersions = compareVersionsLib (\<lambda>a b. 0),
      runtimeMember = (\<lambda>n v. Falsy),
      numberGreater = (\<lambda>a b. False),
      randomSuffix = ''k3j9x0qa'',
      clock = ''2025-01-01T00:00:00.000Z'',
      documentClock = ''2025-01-01T00:00:00.000Z'',
      saveSucceeds = True\<rparr>"

definition rateLimitedEnv :: env where
  "rateLimitedEnv =
     offlineEnv\<lparr>advisoryApi :=
       (\<lambda>n. AdvisoryError
               \<lparr>status = Some 403,
                message = Some ''API rate limit exceeded for 203.0.113.7.''\<rparr>)\<rparr>"

definition lodashEnv :: env where
  "lodashEnv =
     offlineEnv\<lparr>registry :=
                  (\<lambda>n. if n = ''lodash'' then RegistryData (Some ''4.17.21'')
                       else RegistryError),
                advisoryApi := (\<lambda>n. AdvisoryData (Some []))\<rparr>"

definition lodashRegistryEnv :: env where
  "lodashRegistryEnv =
     offlineEnv\<lparr>registry :=
                  (\<lambda>n. if n = ''lodash'' then RegistryData (Some ''4.17.21'')
                       else RegistryError)\<rparr>"

definition currentEnv :: env where
  "currentEnv = offlineEnv\<lparr>registry := (\<lambda>n. RegistryData (Some ''4.17.20''))\<rparr>"

definition emptyDatabase :: database where
  "emptyDatabase = \<lparr>scanresults = [], projects = [], nextId = 0\<rparr>"


definition lodashManifest :: packageJson where
  "lodashManifest =
     \<lparr>dependencies = Some [(''lodash'', ''^4.17.20'')], devDependencies = None\<rparr>"

definition knownManifest :: packageJson where
  "knownManifest =
     \<lparr>dependencies = Some [(''lodash'', ''^4.17.0'')],
      devDependencies = Some [(''express'', ''~4.18.2'')]\<rparr>"

definition sixManifest :: packageJson where
  "sixManifest =
     \<lparr>dependencies =
        Some [(''express'', ''^4.18.2''), (''react'', ''^18.2.0''), (''moment'', ''^2.29.4''),
              (''uuid'', ''^9.0.0''), (''chalk'', ''^5.3.0''), (''debug'', ''^4.3.4'')],
      devDependencies = None\<rparr>"

definition scanOf :: "packageJson \<Rightarrow> scanRequest" where
  "scanOf pj =
     \<lparr>packageJsonBody = Some pj, projectNameBody = Some ''demo'',
      filePathBody = None, requestUser = Some ''64b7f0c2a1d3e4f5a6b7c8d9''\<rparr>"

definition semverRange :: "string \<Rightarrow> string option \<Rightarrow> affectedRange" where
  "semverRange i f =
     \<lparr>rangeType = ''SEMVER'',
      events = [\<lparr>introduced = Some i, fixed = None\<rparr>, \<lparr>introduced = None, fixed = f\<rparr>]\<rparr>"

text \<open>\<^verbatim>\<open>allDependencies\<close> of the handler, for a manifest.\<close>

definition allDependenciesOf :: "packageJson \<Rightarrow> (string \<times> string) list" where
  "allDependenciesOf pj =
     spread (case dependencies pj of None \<Rightarrow> [] | Some d \<Rightarrow> d)
            (case devDependencies pj of None \<Rightarrow> [] | Some d \<Rightarrow> d)"

text \<open>The registry answers 1.2.0 for every package; a manifest that declares lodash at
  the range \<^verbatim>\<open>1\<close>, and one that declares it at the range \<^verbatim>\<open>>=\<close>.\<close>

definition minorEnv :: env where
  "minorEnv = offlineEnv\<lparr>registry := (\<lambda>n. RegistryData (Some ''1.2.0''))\<rparr>"


definition openRangeManifest :: packageJson where
  "openRangeManifest = \<lparr>dependencies = Some [(''lodash'', ''>='')], devDependencies = None\<rparr>"



section \<open>Properties\<close>

subsection \<open>The loop over the batches\<close>

lemma drop_batch: "drop i xs = take n (drop i xs) @ drop (i + n) xs"
proof -
  have "drop i xs = take n (drop i xs) @ drop n (drop i xs)"
    by (simp only: append_take_drop_id)
  also have "drop n (drop i xs) = drop (i + n) xs"
    by (simp add: add.commute)
  finally show ?thesis .
qed

text \<open>Batch after batch, the loop runs the body on every entry, in order.\<close>

lemma analyzeFrom_foldl:
  "analyzeFrom e entries i st = foldl (processPackage e) st (drop i entries)"
proof (induction e entries i st rule: analyzeFrom.induct)
  case (1 e entries i st)
  show ?case
  proof (cases "i < length entries")
    case True
    have "foldl (processPackage e) st (drop i entries) =
        foldl (processPackage e) st
          (take batchSize (drop i entries) @ drop (i + batchSize) entries)"
      using drop_batch [of i entries batchSize] by simp
    also have "\<dots> = foldl (processPackage e) (processBatch e st (take batchSize (drop i entries)))
          (drop (i + batchSize) entries)"
      by (simp only: foldl_append processBatch_def)
    finally have split: "foldl (processPackage e) st (drop i entries) =
        foldl (processPackage e) (processBatch e st (take batchSize (drop i entries)))
          (drop (i + batchSize) entries)" .
    have "analyzeFrom e entries i st =
        analyzeFrom e entries (i + batchSize) (processBatch e st (take batchSize (drop i entries)))"
      using True by (subst analyzeFrom.simps) simp
    also have "\<dots> = foldl (processPackage e) (processBatch e st (take batchSize (drop i entries)))
          (drop (i + batchSize) entries)"
      using 1 True by simp
    finally show ?thesis using split by simp
  next
    case False
    then show ?thesis by (subst analyzeFrom.simps) simp
  qed
qed

lemma analyzeDependencies_foldl:
  "analyzeDependencies e deps = foldl (processPackage e) initialAnalysis deps"
  by (simp add: analyzeDependencies_def analyzeFrom_foldl)

subsection \<open>Objects as association lists\<close>

lemma assign_new: "k \<notin> fst ` set m \<Longrightarrow> assign k v m = m @ [(k, v)]"
  by (induction m) auto

lemma map_fst_assign:
  "map fst (assign k v m) = (if k \<in> fst ` set m then map fst m else map fst m @ [k])"
proof (induction m)
  case Nil
  then show ?case by simp
next
  case (Cons kv m)
  then show ?case by (cases kv) force
qed

lemma keys_assign: "fst ` set (assign k v m) = insert k (fst ` set m)"
proof -
  have "set (map fst (assign k v m)) = insert k (set (map fst m))"
    by (simp only: map_fst_assign) auto
  then show ?thesis by simp
qed

lemma distinct_assign: "distinct (map fst m) \<Longrightarrow> distinct (map fst (assign k v m))"
  by (simp only: map_fst_assign) auto

lemma distinct_foldl_assign:
  "distinct (map fst m) \<Longrightarrow>
   distinct (map fst (foldl (\<lambda>acc kv. assign (fst kv) (snd kv) acc) m xs))"
  by (induction xs arbitrary: m) (simp_all add: distinct_assign)

lemma distinct_spread: "distinct (map fst (spread a b))"
  unfolding spread_def by (rule distinct_foldl_assign) simp

lemma collect_Cons:
  "collect f (x # xs) = (case f x of None \<Rightarrow> [] | Some i \<Rightarrow> [(fst x, i)]) @ collect f xs"
  by (simp add: collect_def)

lemma collect_Nil: "collect f [] = []"
  by (simp add: collect_def)

lemma keys_collect: "fst ` set (collect f es) \<subseteq> fst ` set es"
proof (induction es)
  case Nil
  then show ?case by (simp add: collect_Nil)
next
  case (Cons x xs)
  then show ?case by (cases "f x") (auto simp: collect_Cons)
qed

lemma map_of_collect:
  "distinct (map fst es) \<Longrightarrow> (n, v) \<in> set es \<Longrightarrow> map_of (collect f es) n = f (n, v)"
proof (induction es)
  case Nil
  then show ?case by simp
next
  case (Cons x xs)
  show ?case
  proof (cases "x = (n, v)")
    case True
    with Cons.prems have "n \<notin> fst ` set xs" by auto
    with keys_collect [of f xs] have "n \<notin> fst ` set (collect f xs)" by blast
    then have "map_of (collect f xs) n = None" by (simp add: map_of_eq_None_iff)
    with True show ?thesis by (cases "f (n, v)") (simp_all add: collect_Cons)
  next
    case False
    with Cons.prems have mem: "(n, v) \<in> set xs" by simp
    with Cons.prems have "fst x \<noteq> n" by (cases x) force
    with Cons mem show ?thesis by (cases "f x") (simp_all add: collect_Cons)
  qed
qed

lemma map_of_collect_absent:
  "n \<notin> fst ` set es \<Longrightarrow> map_of (collect f es) n = None"
  using keys_collect [of f es] by (auto simp: map_of_eq_None_iff)

lemma foldl_assign_collect:
  "distinct (map fst es) \<Longrightarrow> fst ` set es \<inter> fst ` set m = {} \<Longrightarrow>
   foldl (\<lambda>acc entry. case f entry of None \<Rightarrow> acc | Some i \<Rightarrow> assign (fst entry) i acc) m es
     = m @ collect f es"
proof (induction es arbitrary: m)
  case Nil
  then show ?case by (simp add: collect_Nil)
next
  case (Cons x xs)
  show ?case
  proof (cases "f x")
    case None
    with Cons show ?thesis by (simp add: collect_Cons)
  next
    case (Some i)
    from Cons.prems have fresh: "fst x \<notin> fst ` set m" by auto
    then have step: "assign (fst x) i m = m @ [(fst x, i)]" by (rule assign_new)
    from Cons.prems have "fst ` set xs \<inter> fst ` set (m @ [(fst x, i)]) = {}" by auto
    with Cons have "foldl (\<lambda>acc entry. case f entry of None \<Rightarrow> acc
                                   | Some i \<Rightarrow> assign (fst entry) i acc) (m @ [(fst x, i)]) xs
        = (m @ [(fst x, i)]) @ collect f xs"
      by simp
    with Some step show ?thesis by (simp add: collect_Cons)
  qed
qed

subsection \<open>The flag is never raised\<close>

text \<open>\<open>checkVulnerabilities\<close> catches every error itself: it never throws.\<close>

lemma checkVulnerabilities_returns: "\<exists>r. fst (checkVulnerabilities e n v) = Inr r"
proof (cases "tableLookup e n v")
  case (Inl err)
  then show ?thesis by (simp add: checkVulnerabilities_def)
next
  case (Inr found)
  show ?thesis
  proof (cases found)
    case None
    with Inr show ?thesis
      by (cases "queryAdvisories e n v")
         (auto simp: checkVulnerabilities_def split: option.splits)
  next
    case (Some v)
    with Inr show ?thesis by (simp add: checkVulnerabilities_def)
  qed
qed

lemma processPackage_unlimited:
  assumes "\<not> rateLimited st"
  shows "processPackage e st entry =
     st\<lparr>outdated := (case outdatedOf e entry of
                       None \<Rightarrow> outdated st
                     | Some i \<Rightarrow> assign (fst entry) i (outdated st)),
        vulnerable := (case vulnerableOf e entry of
                         None \<Rightarrow> vulnerable st
                       | Some i \<Rightarrow> assign (fst entry) i (vulnerable st)),
        calls := calls st @ callsOf e entry\<rparr>"
proof -
  obtain r where r: "fst (checkVulnerabilities e (fst entry) (cleanVersion (snd entry))) = Inr r"
    using checkVulnerabilities_returns by blast
  show ?thesis
  proof (cases "fst entry = ''__proto__''")
    case True
    with assms r show ?thesis
      by (cases "getLatestVersion e (fst entry)")
         (simp_all add: processPackage_def outdatedOf_def vulnerableOf_def callsOf_def Let_def
            setProperty_def split: option.splits vulnerabilityValue.splits)
  next
    case False
    with assms r show ?thesis
      by (cases "getLatestVersion e (fst entry)")
         (simp_all add: processPackage_def outdatedOf_def vulnerableOf_def callsOf_def Let_def
            setProperty_def split: option.splits vulnerabilityValue.splits)
  qed
qed

lemma foldl_processPackage:
  "\<not> rateLimited st \<Longrightarrow>
   foldl (processPackage e) st es =
     st\<lparr>outdated := foldl (\<lambda>acc entry. case outdatedOf e entry of
                                          None \<Rightarrow> acc
                                        | Some i \<Rightarrow> assign (fst entry) i acc) (outdated st) es,
        vulnerable := foldl (\<lambda>acc entry. case vulnerableOf e entry of
                                            None \<Rightarrow> acc
                                          | Some i \<Rightarrow> assign (fst entry) i acc) (vulnerable st) es,
        calls := calls st @ concat (map (callsOf e) es)\<rparr>"
proof (induction es arbitrary: st)
  case Nil
  then show ?case by simp
next
  case (Cons x xs)
  let ?st = "processPackage e st x"
  from Cons.prems have eq: "?st =
     st\<lparr>outdated := (case outdatedOf e x of
                       None \<Rightarrow> outdated st
                     | Some i \<Rightarrow> assign (fst x) i (outdated st)),
        vulnerable := (case vulnerableOf e x of
                         None \<Rightarrow> vulnerable st
                       | Some i \<Rightarrow> assign (fst x) i (vulnerable st)),
        calls := calls st @ callsOf e x\<rparr>"
    by (rule processPackage_unlimited)
  then have "\<not> rateLimited ?st" using Cons.prems by simp
  then have "foldl (processPackage e) ?st xs =
     ?st\<lparr>outdated := foldl (\<lambda>acc entry. case outdatedOf e entry of
                                          None \<Rightarrow> acc
                                        | Some i \<Rightarrow> assign (fst entry) i acc) (outdated ?st) xs,
        vulnerable := foldl (\<lambda>acc entry. case vulnerableOf e entry of
                                            None \<Rightarrow> acc
                                          | Some i \<Rightarrow> assign (fst entry) i acc) (vulnerable ?st) xs,
        calls := calls ?st @ concat (map (callsOf e) xs)\<rparr>"
    by (rule Cons.IH)
  then show ?case by (simp add: eq)
qed

text \<open>
  For a dependency object (one entry per name), the result of \<open>analyzeDependencies\<close>:
  each entry contributes its own outcome, the flag is down, and every entry made its
  own requests.
\<close>

lemma analyzeDependencies_distinct:
  assumes "distinct (map fst deps)"
  shows "analyzeDependencies e deps =
     \<lparr>outdated = collect (outdatedOf e) deps,
      vulnerable = collect (vulnerableOf e) deps,
      rateLimited = False,
      calls = concat (map (callsOf e) deps)\<rparr>"
proof -
  have "\<not> rateLimited initialAnalysis" by (simp add: initialAnalysis_def)
  then have "foldl (processPackage e) initialAnalysis deps =
     initialAnalysis\<lparr>outdated := foldl (\<lambda>acc entry. case outdatedOf e entry of
                                          None \<Rightarrow> acc
                                        | Some i \<Rightarrow> assign (fst entry) i acc)
                                   (outdated initialAnalysis) deps,
        vulnerable := foldl (\<lambda>acc entry. case vulnerableOf e entry of
                                            None \<Rightarrow> acc
                                          | Some i \<Rightarrow> assign (fst entry) i acc)
                                   (vulnerable initialAnalysis) deps,
        calls := calls initialAnalysis @ concat (map (callsOf e) deps)\<rparr>"
    by (rule foldl_processPackage)
  moreover have "foldl (\<lambda>acc entry. case outdatedOf e entry of
                                          None \<Rightarrow> acc
                                        | Some i \<Rightarrow> assign (fst entry) i acc) [] deps
      = [] @ collect (outdatedOf e) deps"
    using assms by (intro foldl_assign_collect) simp_all
  moreover have "foldl (\<lambda>acc entry. case vulnerableOf e entry of
                                          None \<Rightarrow> acc
                                        | Some i \<Rightarrow> assign (fst entry) i acc) [] deps
      = [] @ collect (vulnerableOf e) deps"
    using assms by (intro foldl_assign_collect) simp_all
  ultimately show ?thesis
    by (simp add: analyzeDependencies_foldl initialAnalysis_def)
qed

lemma analyzeDependencies_flag: "rateLimited (analyzeDependencies e deps) = False"
proof -
  have "\<not> rateLimited initialAnalysis" by (simp add: initialAnalysis_def)
  from foldl_processPackage [OF this, of e deps] show ?thesis
    by (simp add: analyzeDependencies_foldl initialAnalysis_def)
qed

lemma analyzeDependencies_calls:
  "calls (analyzeDependencies e deps) = concat (map (callsOf e) deps)"
proof -
  have "\<not> rateLimited initialAnalysis" by (simp add: initialAnalysis_def)
  from foldl_processPackage [OF this, of e deps] show ?thesis
    by (simp add: analyzeDependencies_foldl initialAnalysis_def)
qed

text \<open>
  Since the flag is never raised, the order in which the bodies run does not matter:
  the same entries in another order give the same two maps and the same requests.
\<close>

lemma map_of_collect_order:
  assumes "distinct (map fst es)" and "distinct (map fst es')" and "set es' = set es"
  shows "map_of (collect f es') = map_of (collect f es)"
proof (rule ext)
  fix n
  show "map_of (collect f es') n = map_of (collect f es) n"
  proof (cases "n \<in> fst ` set es")
    case True
    then obtain v where v: "(n, v) \<in> set es" by force
    with assms(3) have v': "(n, v) \<in> set es'" by simp
    from map_of_collect [OF assms(1) v, of f] map_of_collect [OF assms(2) v', of f]
    show ?thesis by simp
  next
    case False
    with assms(3) show ?thesis by (simp add: map_of_collect_absent)
  qed
qed

lemma processing_order_irrelevant:
  assumes "distinct (map fst es)" and "distinct (map fst es')" and "set es' = set es"
  shows "map_of (outdated (analyzeDependencies e es')) = map_of (outdated (analyzeDependencies e es))"
    and "map_of (vulnerable (analyzeDependencies e es'))
           = map_of (vulnerable (analyzeDependencies e es))"
    and "set (calls (analyzeDependencies e es')) = set (calls (analyzeDependencies e es))"
proof -
  show "map_of (outdated (analyzeDependencies e es')) = map_of (outdated (analyzeDependencies e es))"
    using map_of_collect_order [OF assms]
    by (simp add: analyzeDependencies_distinct [OF assms(1)] analyzeDependencies_distinct [OF assms(2)])
  show "map_of (vulnerable (analyzeDependencies e es'))
           = map_of (vulnerable (analyzeDependencies e es))"
    using map_of_collect_order [OF assms]
    by (simp add: analyzeDependencies_distinct [OF assms(1)] analyzeDependencies_distinct [OF assms(2)])
  show "set (calls (analyzeDependencies e es')) = set (calls (analyzeDependencies e es))"
    using assms(3) by (simp add: analyzeDependencies_calls)
qed

subsection \<open>Cleaning\<close>

lemma cleanVersion_filter: "cleanVersion v = filter (\<lambda>c. c \<notin> set rangeOperators) v"
  by (induction v) auto

lemma digitsAndDots_filter:
  "digitsAndDots (filter (\<lambda>c. c \<notin> set rangeOperators) v) =
     list_all (\<lambda>c. c \<in> set rangeOperators \<or> isDigit c \<or> c = CHR ''.'') v"
  by (induction v) (auto simp: digitsAndDots_def)

text \<open>
  Claim C7, as amended. Cleaning removes every occurrence of the five characters
  \<^verbatim>\<open>^ ~ > = <\<close> and keeps every other character, in order. The cleaned string
  consists of digits and dots exactly when the declared string has no character
  besides those five, digits and dots.
\<close>

theorem cleanVersion_removes_operators:
  "cleanVersion v = filter (\<lambda>c. c \<notin> set rangeOperators) v
   \<and> set (cleanVersion v) \<inter> set rangeOperators = {}
   \<and> (digitsAndDots (cleanVersion v) \<longleftrightarrow>
        list_all (\<lambda>c. c \<in> set rangeOperators \<or> isDigit c \<or> c = CHR ''.'') v)"
proof -
  have "cleanVersion v = filter (\<lambda>c. c \<notin> set rangeOperators) v"
    by (rule cleanVersion_filter)
  moreover have "set (filter (\<lambda>c. c \<notin> set rangeOperators) v) \<inter> set rangeOperators = {}"
    by auto
  ultimately show ?thesis
    by (simp only: digitsAndDots_filter)
qed

theorem cleanVersion_removes_operators_witness:
  "cleanVersion ''>=1.2.3'' = ''1.2.3''
   \<and> set (cleanVersion ''>=1.2.3'') \<inter> set rangeOperators = {}
   \<and> digitsAndDots (cleanVersion ''>=1.2.3'')"
  using cleanVersion_removes_operators [of "''>=1.2.3''"]
  by (simp add: rangeOperators_def isDigit_def)

text \<open>
  Claim C7, as stated, fails: a declared range with a pre-release tag keeps the tag,
  which is neither digits nor dots.
\<close>

theorem cleanVersion_keeps_tag:
  "cleanVersion ''^1.2.3-beta.1'' = ''1.2.3-beta.1''
   \<and> \<not> digitsAndDots (cleanVersion ''^1.2.3-beta.1'')"
  by (simp add: rangeOperators_def digitsAndDots_def isDigit_def)

subsection \<open>The handler\<close>

text \<open>The analysis does not read whether the database accepts a \<^verbatim>\<open>save()\<close>.\<close>

lemma findAdvisory_save:
  "findAdvisory (e\<lparr>saveSucceeds := b\<rparr>) n v as = findAdvisory e n v as"
proof (induction as)
  case Nil
  then show ?case by simp
next
  case (Cons a as)
  have "advisoryInfo (e\<lparr>saveSucceeds := b\<rparr>) a = advisoryInfo e a"
    by (simp add: advisoryInfo_def split: option.splits)
  with Cons show ?case by (simp split: option.splits sum.splits bool.splits)
qed

lemma checkVulnerabilities_save:
  "checkVulnerabilities (e\<lparr>saveSucceeds := b\<rparr>) n v = checkVulnerabilities e n v"
proof -
  have "queryAdvisories (e\<lparr>saveSucceeds := b\<rparr>) n v = queryAdvisories e n v"
    by (simp add: queryAdvisories_def findAdvisory_save
        split: advisoryResponse.splits option.splits)
  moreover have "runtimeMember (e\<lparr>saveSucceeds := b\<rparr>) = runtimeMember e"
    by simp
  then have "tableLookup (e\<lparr>saveSucceeds := b\<rparr>) n v = tableLookup e n v"
    by (simp only: tableLookup_def)
  ultimately show ?thesis by (simp only: checkVulnerabilities_def)
qed

lemma processPackage_save:
  "processPackage (e\<lparr>saveSucceeds := b\<rparr>) st entry = processPackage e st entry"
proof -
  have "getLatestVersion (e\<lparr>saveSucceeds := b\<rparr>) = getLatestVersion e"
    by (intro ext) (simp add: getLatestVersion_def)
  moreover have "isNewerVersion (e\<lparr>saveSucceeds := b\<rparr>) = isNewerVersion e"
    by (intro ext) (simp add: isNewerVersion_def)
  moreover have "numberGreater (e\<lparr>saveSucceeds := b\<rparr>) = numberGreater e"
    by simp
  then have "pieceGreater (e\<lparr>saveSucceeds := b\<rparr>) = pieceGreater e"
    by (intro ext) (simp only: pieceGreater_def)
  then have "calculateUpdateSeverity (e\<lparr>saveSucceeds := b\<rparr>) = calculateUpdateSeverity e"
    by (intro ext) (simp only: calculateUpdateSeverity_def)
  ultimately show ?thesis
    by (simp only: processPackage_def checkVulnerabilities_save)
qed

lemma analyzeDependencies_save:
  "analyzeDependencies (e\<lparr>saveSucceeds := b\<rparr>) deps = analyzeDependencies e deps"
proof -
  have "processPackage (e\<lparr>saveSucceeds := b\<rparr>) = processPackage e"
    by (intro ext) (rule processPackage_save)
  then show ?thesis by (simp add: analyzeDependencies_foldl)
qed

text \<open>The handler on a request that carries a manifest and an authenticated user.\<close>

lemma postPackageJson_response:
  assumes "packageJsonBody req = Some pj" and "requestUser req = Some user" and "user \<noteq> []"
  shows "fst (postPackageJson e db req) =
     Response 200
       (ScanReport
          \<lparr>summaryOutdated = length (outdated (analyzeDependencies e (allDependenciesOf pj))),
           summaryVulnerable = length (vulnerable (analyzeDependencies e (allDependenciesOf pj))),
           summaryTotal = length (allDependenciesOf pj)\<rparr>
          (orDefault (projectNameBody req) ''Unknown Project'') (clock e)
          (outdated (analyzeDependencies e (allDependenciesOf pj)))
          (vulnerable (analyzeDependencies e (allDependenciesOf pj)))
          None)"
  using assms
  by (simp add: postPackageJson_def allDependenciesOf_def Let_def analyzeDependencies_flag)

lemma postPackageJson_calls:
  assumes "packageJsonBody req = Some pj" and "requestUser req = Some user" and "user \<noteq> []"
  shows "snd (snd (postPackageJson e db req)) =
     calls (analyzeDependencies e (allDependenciesOf pj))"
  using assms
  by (simp add: postPackageJson_def allDependenciesOf_def Let_def)

lemma postPackageJson_saved:
  assumes "packageJsonBody req = Some pj" and "requestUser req = Some user" and "user \<noteq> []"
    and "saveSucceeds e"
  shows "fst (snd (postPackageJson e db req)) =
     db\<lparr>scanresults := scanresults db @
          [\<lparr>docId = nextId db, userId = user,
            projectName = trim (orDefault (projectNameBody req) ''Unknown Project''),
            filePath = orDefault (filePathBody req) ''package.json'',
            packageJsonContent = pj, scanDate = documentClock e,
            storedSummary =
              \<lparr>summaryOutdated = length (outdated (analyzeDependencies e (allDependenciesOf pj))),
               summaryVulnerable = length (vulnerable (analyzeDependencies e (allDependenciesOf pj))),
               summaryTotal = length (allDependenciesOf pj)\<rparr>,
            storedOutdated = outdated (analyzeDependencies e (allDependenciesOf pj)),
            storedVulnerable = vulnerable (analyzeDependencies e (allDependenciesOf pj))\<rparr>],
         nextId := Suc (nextId db)\<rparr>"
  using assms
  by (simp add: postPackageJson_def allDependenciesOf_def Let_def saveScanResult_def
      newScanResult_def)

lemma postPackageJson_not_saved:
  assumes "\<not> saveSucceeds e"
  shows "fst (snd (postPackageJson e db req)) = db"
  using assms
  by (simp add: postPackageJson_def Let_def saveScanResult_def split: option.splits)


text \<open>
  Claim C10. On a request with a manifest and an authenticated user, a \<^verbatim>\<open>save()\<close> that
  throws changes nothing in the response: it is the response of the run in which the
  save succeeds, HTTP 200 with the summary, the details and the warnings computed by the
  analysis; the database is as it was, while a successful save adds one record.
\<close>

theorem save_failure_keeps_response:
  assumes "packageJsonBody req = Some pj" and "requestUser req = Some user" and "user \<noteq> []"
  shows "fst (postPackageJson (e\<lparr>saveSucceeds := False\<rparr>) db req) =
           fst (postPackageJson (e\<lparr>saveSucceeds := True\<rparr>) db req)
     \<and> fst (postPackageJson (e\<lparr>saveSucceeds := False\<rparr>) db req) =
         Response 200
           (ScanReport
              \<lparr>summaryOutdated = length (outdated (analyzeDependencies e (allDependenciesOf pj))),
               summaryVulnerable = length (vulnerable (analyzeDependencies e (allDependenciesOf pj))),
               summaryTotal = length (allDependenciesOf pj)\<rparr>
              (orDefault (projectNameBody req) ''Unknown Project'') (clock e)
              (outdated (analyzeDependencies e (allDependenciesOf pj)))
              (vulnerable (analyzeDependencies e (allDependenciesOf pj)))
              (if rateLimited (analyzeDependencies e (allDependenciesOf pj))
               then Some True else None))
     \<and> fst (snd (postPackageJson (e\<lparr>saveSucceeds := False\<rparr>) db req)) = db
     \<and> length (scanresults (fst (snd (postPackageJson (e\<lparr>saveSucceeds := True\<rparr>) db req))))
         = Suc (length (scanresults db))"
proof -
  have resp: "\<And>b. fst (postPackageJson (e\<lparr>saveSucceeds := b\<rparr>) db req) =
     Response 200
       (ScanReport
          \<lparr>summaryOutdated = length (outdated (analyzeDependencies e (allDependenciesOf pj))),
           summaryVulnerable = length (vulnerable (analyzeDependencies e (allDependenciesOf pj))),
           summaryTotal = length (allDependenciesOf pj)\<rparr>
          (orDefault (projectNameBody req) ''Unknown Project'') (clock e)
          (outdated (analyzeDependencies e (allDependenciesOf pj)))
          (vulnerable (analyzeDependencies e (allDependenciesOf pj)))
          None)"
    using postPackageJson_response [OF assms, of "e\<lparr>saveSucceeds := b\<rparr>" db for b]
    by (simp add: analyzeDependencies_save)
  have same: "fst (postPackageJson (e\<lparr>saveSucceeds := False\<rparr>) db req) =
           fst (postPackageJson (e\<lparr>saveSucceeds := True\<rparr>) db req)"
    by (simp only: resp)
  have kept: "fst (snd (postPackageJson (e\<lparr>saveSucceeds := False\<rparr>) db req)) = db"
    by (rule postPackageJson_not_saved) simp
  have added: "length (scanresults (fst (snd (postPackageJson (e\<lparr>saveSucceeds := True\<rparr>) db req))))
         = Suc (length (scanresults db))"
    using postPackageJson_saved [OF assms, of "e\<lparr>saveSucceeds := True\<rparr>" db] by simp
  from same resp [of False] kept added show ?thesis
    by (simp add: analyzeDependencies_flag)
qed

theorem save_failure_keeps_response_witness:
  "fst (postPackageJson (offlineEnv\<lparr>saveSucceeds := False\<rparr>) emptyDatabase (scanOf knownManifest)) =
     fst (postPackageJson (offlineEnv\<lparr>saveSucceeds := True\<rparr>) emptyDatabase (scanOf knownManifest))
   \<and> statusCode (fst (postPackageJson (offlineEnv\<lparr>saveSucceeds := False\<rparr>) emptyDatabase
                        (scanOf knownManifest))) = 200
   \<and> fst (snd (postPackageJson (offlineEnv\<lparr>saveSucceeds := False\<rparr>) emptyDatabase
                 (scanOf knownManifest))) = emptyDatabase
   \<and> length (scanresults (fst (snd (postPackageJson (offlineEnv\<lparr>saveSucceeds := True\<rparr>)
                                       emptyDatabase (scanOf knownManifest))))) = 1"
proof -
  have h1: "packageJsonBody (scanOf knownManifest) = Some knownManifest"
    by (simp add: scanOf_def)
  have h2: "requestUser (scanOf knownManifest) = Some ''64b7f0c2a1d3e4f5a6b7c8d9''"
    by (simp add: scanOf_def)
  have h3: "''64b7f0c2a1d3e4f5a6b7c8d9'' \<noteq> []" by simp
  note t = save_failure_keeps_response [OF h1 h2 h3, of offlineEnv emptyDatabase]
  from t have c1: "fst (postPackageJson (offlineEnv\<lparr>saveSucceeds := False\<rparr>) emptyDatabase
                         (scanOf knownManifest)) =
     fst (postPackageJson (offlineEnv\<lparr>saveSucceeds := True\<rparr>) emptyDatabase (scanOf knownManifest))"
    by (rule conjunct1)
  from t obtain b where "fst (postPackageJson (offlineEnv\<lparr>saveSucceeds := False\<rparr>)
                        emptyDatabase (scanOf knownManifest)) = Response 200 b"
    by blast
  then have c2: "statusCode (fst (postPackageJson (offlineEnv\<lparr>saveSucceeds := False\<rparr>)
                        emptyDatabase (scanOf knownManifest))) = 200"
    by simp
  from t have c3: "fst (snd (postPackageJson (offlineEnv\<lparr>saveSucceeds := False\<rparr>) emptyDatabase
                 (scanOf knownManifest))) = emptyDatabase"
    by blast
  from t have "length (scanresults (fst (snd (postPackageJson (offlineEnv\<lparr>saveSucceeds := True\<rparr>)
                   emptyDatabase (scanOf knownManifest))))) = Suc (length (scanresults emptyDatabase))"
    by blast
  then have c4: "length (scanresults (fst (snd (postPackageJson (offlineEnv\<lparr>saveSucceeds := True\<rparr>)
                   emptyDatabase (scanOf knownManifest))))) = 1"
    by (simp add: emptyDatabase_def)
  from c1 c2 c3 c4 show ?thesis by (intro conjI)
qed




subsection \<open>Requests made by a scan\<close>

lemma advisory_calls_of_entry:
  "set (snd (checkVulnerabilities e n v)) \<subseteq> {AdvisoryGet n}"
  by (simp add: checkVulnerabilities_def split: option.splits sum.splits)

lemma known_tableLookup:
  "knownVulnerability n v = Some info \<Longrightarrow> tableLookup e n v = Inr (Some (Details info))"
  by (auto simp: knownVulnerability_def tableLookup_def split: option.splits)

lemma unknown_tableLookup:
  assumes "knownVulnerability n v = None"
    and "n \<notin> set objectPrototypeMembers" and "v \<notin> set objectPrototypeMembers"
  shows "tableLookup e n v = Inr None"
  using assms by (auto simp: knownVulnerability_def tableLookup_def split: option.splits)

lemma known_not_proto: "knownVulnerability n v = Some info \<Longrightarrow> n \<noteq> ''__proto__''"
  by (auto simp: knownVulnerability_def knownVulnerablePackages_def split: if_splits)

lemma known_makes_no_call:
  "knownVulnerability n v = Some info \<Longrightarrow>
   checkVulnerabilities e n v = (Inr (Some (Details info)), [])"
  by (simp add: checkVulnerabilities_def known_tableLookup)

lemma call_means_table_miss:
  assumes "AdvisoryGet m \<in> set (snd (checkVulnerabilities e n v))"
  shows "tableLookup e n v = Inr None"
proof (cases "tableLookup e n v")
  case (Inl err)
  with assms show ?thesis by (simp add: checkVulnerabilities_def)
next
  case (Inr found)
  with assms show ?thesis by (cases found) (simp_all add: checkVulnerabilities_def)
qed

lemma table_miss_means_call:
  assumes "tableLookup e n v = Inr None"
  shows "snd (checkVulnerabilities e n v) = [AdvisoryGet n]"
  using assms by (simp add: checkVulnerabilities_def split: sum.splits option.splits)

lemma count_registry_callsOf:
  "count_list (callsOf e entry) (RegistryGet m) = (if fst entry = m then 1 else 0)"
proof -
  have "set (snd (checkVulnerabilities e (fst entry) (cleanVersion (snd entry))))
          \<subseteq> {AdvisoryGet (fst entry)}"
    by (rule advisory_calls_of_entry)
  then have "RegistryGet m \<notin> set (snd (checkVulnerabilities e (fst entry) (cleanVersion (snd entry))))"
    by auto
  then have "count_list (snd (checkVulnerabilities e (fst entry) (cleanVersion (snd entry))))
               (RegistryGet m) = 0"
    by (simp add: count_list_0_iff)
  then show ?thesis by (auto simp: callsOf_def)
qed

lemma count_advisory_callsOf:
  "count_list (callsOf e entry) (AdvisoryGet m) \<le> (if fst entry = m then 1 else 0)"
  by (simp add: callsOf_def checkVulnerabilities_def split: option.splits sum.splits)

lemma count_list_distinct:
  "distinct xs \<Longrightarrow> count_list xs x = (if x \<in> set xs then 1 else 0)"
  by (induction xs) auto

lemma count_registry_calls:
  "count_list (concat (map (callsOf e) deps)) (RegistryGet m) = count_list (map fst deps) m"
  by (induction deps) (simp_all add: count_registry_callsOf)

lemma count_advisory_calls:
  "count_list (concat (map (callsOf e) deps)) (AdvisoryGet m) \<le> count_list (map fst deps) m"
proof (induction deps)
  case Nil
  then show ?case by simp
next
  case (Cons x xs)
  have "count_list (callsOf e x) (AdvisoryGet m) \<le> (if fst x = m then 1 else 0)"
    by (rule count_advisory_callsOf)
  with Cons show ?case by auto
qed

lemma advisory_call_origin:
  assumes "AdvisoryGet m \<in> set (concat (map (callsOf e) deps))"
  shows "\<exists>v. (m, v) \<in> set deps \<and> AdvisoryGet m \<in> set (snd (checkVulnerabilities e m (cleanVersion v)))"
proof -
  from assms obtain entry where mem: "entry \<in> set deps"
    and call: "AdvisoryGet m \<in> set (callsOf e entry)"
    by auto
  from call have inner: "AdvisoryGet m \<in> set (snd (checkVulnerabilities e (fst entry) (cleanVersion (snd entry))))"
    by (simp add: callsOf_def)
  with advisory_calls_of_entry [of e "fst entry" "cleanVersion (snd entry)"]
  have key: "fst entry = m" by auto
  obtain a b where ab: "entry = (a, b)" by (cases entry)
  with key have "a = m" by simp
  with mem inner ab have "(m, b) \<in> set deps
      \<and> AdvisoryGet m \<in> set (snd (checkVulnerabilities e m (cleanVersion b)))"
    by simp
  then show ?thesis by blast
qed

lemma distinct_entry_unique:
  "distinct (map fst deps) \<Longrightarrow> (n, v) \<in> set deps \<Longrightarrow> (n, v') \<in> set deps \<Longrightarrow> v = v'"
  by (meson eq_key_imp_eq_value)

text \<open>A package found in the table is reported with the record of the table, and no
  advisory request is made for it.\<close>

lemma known_entry:
  assumes "distinct (map fst deps)" and "(pkg, version) \<in> set deps"
    and "knownVulnerability pkg (cleanVersion version) = Some info"
  shows "map_of (vulnerable (analyzeDependencies e deps)) pkg
           = Some (VulnerableInfo (cleanVersion version) info)"
    and "AdvisoryGet pkg \<notin> set (calls (analyzeDependencies e deps))"
proof -
  have "map_of (collect (vulnerableOf e) deps) pkg = vulnerableOf e (pkg, version)"
    using assms(1,2) by (rule map_of_collect)
  also have "\<dots> = Some (VulnerableInfo (cleanVersion version) info)"
    by (simp add: vulnerableOf_def known_makes_no_call [OF assms(3)] known_not_proto [OF assms(3)])
  finally show "map_of (vulnerable (analyzeDependencies e deps)) pkg
           = Some (VulnerableInfo (cleanVersion version) info)"
    by (simp add: analyzeDependencies_distinct [OF assms(1)])
  show "AdvisoryGet pkg \<notin> set (calls (analyzeDependencies e deps))"
  proof
    assume "AdvisoryGet pkg \<in> set (calls (analyzeDependencies e deps))"
    then have "AdvisoryGet pkg \<in> set (concat (map (callsOf e) deps))"
      by (simp only: analyzeDependencies_calls)
    then obtain v where v: "(pkg, v) \<in> set deps"
      and c: "AdvisoryGet pkg \<in> set (snd (checkVulnerabilities e pkg (cleanVersion v)))"
      using advisory_call_origin by blast
    from assms(1) v assms(2) have "v = version" by (rule distinct_entry_unique)
    with c show False by (simp add: known_makes_no_call [OF assms(3)])
  qed
qed

lemma distinct_allDependenciesOf: "distinct (map fst (allDependenciesOf pj))"
  by (simp add: allDependenciesOf_def distinct_spread)

text \<open>
  Claim C3. For every package of a scanned manifest whose name and cleaned version are in
  the table of \<open>checkVulnerabilities\<close>, the result (and the response of the handler) has
  the package in the vulnerable map with the record of the table, and the scan makes no
  advisory request for that package.
\<close>

theorem known_vulnerable_reported_without_request:
  assumes "(pkg, version) \<in> set (allDependenciesOf pj)"
    and "knownVulnerability pkg (cleanVersion version) = Some info"
    and "packageJsonBody req = Some pj" and "requestUser req = Some user" and "user \<noteq> []"
  shows "map_of (vulnerable (analyzeDependencies e (allDependenciesOf pj))) pkg
           = Some (VulnerableInfo (cleanVersion version) info)
     \<and> AdvisoryGet pkg \<notin> set (calls (analyzeDependencies e (allDependenciesOf pj)))
     \<and> (\<exists>summ pn date out vul w.
           fst (postPackageJson e db req) = Response 200 (ScanReport summ pn date out vul w)
           \<and> map_of vul pkg = Some (VulnerableInfo (cleanVersion version) info))
     \<and> AdvisoryGet pkg \<notin> set (snd (snd (postPackageJson e db req)))"
proof -
  note d = distinct_allDependenciesOf [of pj]
  note k = known_entry [OF d assms(1,2), of e]
  from k(1) postPackageJson_response [OF assms(3-5), of e db]
  have "\<exists>summ pn date out vul w.
           fst (postPackageJson e db req) = Response 200 (ScanReport summ pn date out vul w)
           \<and> map_of vul pkg = Some (VulnerableInfo (cleanVersion version) info)"
    by blast
  moreover from k(2) postPackageJson_calls [OF assms(3-5), of e db]
  have "AdvisoryGet pkg \<notin> set (snd (snd (postPackageJson e db req)))"
    by simp
  ultimately show ?thesis using k by blast
qed

theorem known_vulnerable_reported_without_request_witness:
  "map_of (vulnerable (analyzeDependencies offlineEnv (allDependenciesOf knownManifest))) ''lodash''
     = Some (VulnerableInfo ''4.17.0''
              \<lparr>vulnId = ''CVE-2019-10744'', vulnSeverity = ''high'',
               description = ''Prototype pollution vulnerability in Lodash'',
               references = None\<rparr>)
   \<and> AdvisoryGet ''lodash'' \<notin> set (calls (analyzeDependencies offlineEnv (allDependenciesOf knownManifest)))
   \<and> AdvisoryGet ''lodash'' \<notin> set (snd (snd (postPackageJson offlineEnv emptyDatabase
                                                   (scanOf knownManifest))))"
proof -
  have h1: "(''lodash'', ''^4.17.0'') \<in> set (allDependenciesOf knownManifest)"
    by (simp add: allDependenciesOf_def knownManifest_def spread_def)
  have h2: "knownVulnerability ''lodash'' (cleanVersion ''^4.17.0'') =
      Some \<lparr>vulnId = ''CVE-2019-10744'', vulnSeverity = ''high'',
               description = ''Prototype pollution vulnerability in Lodash'',
               references = None\<rparr>"
    by (simp add: knownVulnerability_def knownVulnerablePackages_def rangeOperators_def)
  have h3: "packageJsonBody (scanOf knownManifest) = Some knownManifest"
    by (simp add: scanOf_def)
  have h4: "requestUser (scanOf knownManifest) = Some ''64b7f0c2a1d3e4f5a6b7c8d9''"
    by (simp add: scanOf_def)
  have h5: "''64b7f0c2a1d3e4f5a6b7c8d9'' \<noteq> []" by simp
  have c: "cleanVersion ''^4.17.0'' = ''4.17.0''"
    by (simp add: rangeOperators_def)
  from known_vulnerable_reported_without_request [OF h1 h2 h3 h4 h5, of offlineEnv emptyDatabase]
  show ?thesis by (simp only: c) blast
qed

subsection \<open>Failed lookups\<close>

lemma findAdvisory_random:
  "randomSuffix e' = randomSuffix e \<Longrightarrow> findAdvisory e' n v as = findAdvisory e n v as"
proof (induction as)
  case Nil
  then show ?case by simp
next
  case (Cons a as)
  then have "advisoryInfo e' a = advisoryInfo e a"
    by (simp add: advisoryInfo_def split: option.splits)
  with Cons show ?case by (simp split: option.splits sum.splits bool.splits)
qed

lemma outdatedOf_local:
  assumes "registry e' n = registry e n" and "compareVersions e' = compareVersions e"
    and "numberGreater e' = numberGreater e"
  shows "outdatedOf e' (n, v) = outdatedOf e (n, v)"
proof -
  from assms(1) have "getLatestVersion e' n = getLatestVersion e n"
    by (simp add: getLatestVersion_def)
  moreover from assms(2) have "isNewerVersion e' = isNewerVersion e"
    by (intro ext) (simp add: isNewerVersion_def)
  moreover from assms(3) have "pieceGreater e' = pieceGreater e"
    by (intro ext) (simp only: pieceGreater_def)
  then have "calculateUpdateSeverity e' = calculateUpdateSeverity e"
    by (intro ext) (simp only: calculateUpdateSeverity_def)
  ultimately show ?thesis by (simp only: outdatedOf_def Let_def fst_conv snd_conv)
qed

lemma vulnerableOf_local:
  assumes "advisoryApi e' n = advisoryApi e n" and "randomSuffix e' = randomSuffix e"
    and "runtimeMember e' = runtimeMember e"
  shows "vulnerableOf e' (n, v) = vulnerableOf e (n, v)"
proof -
  from assms(1) have "queryAdvisories e' n (cleanVersion v) = queryAdvisories e n (cleanVersion v)"
    by (simp add: queryAdvisories_def findAdvisory_random [OF assms(2)]
        split: advisoryResponse.splits option.splits)
  moreover from assms(3) have "tableLookup e' n (cleanVersion v) = tableLookup e n (cleanVersion v)"
    by (simp only: tableLookup_def)
  ultimately have "checkVulnerabilities e' n (cleanVersion v)
      = checkVulnerabilities e n (cleanVersion v)"
    by (simp only: checkVulnerabilities_def)
  then show ?thesis by (simp only: vulnerableOf_def Let_def fst_conv snd_conv)
qed

lemma outdatedOf_registry_error:
  "registry e n = RegistryError \<Longrightarrow> outdatedOf e (n, v) = None"
  by (simp add: outdatedOf_def getLatestVersion_def Let_def)

lemma vulnerableOf_advisory_error:
  assumes "advisoryApi e n = AdvisoryError h"
    and "AdvisoryGet n \<in> set (snd (checkVulnerabilities e n (cleanVersion v)))"
  shows "vulnerableOf e (n, v) = None"
proof -
  from assms(2) have "tableLookup e n (cleanVersion v) = Inr None"
    by (rule call_means_table_miss)
  with assms(1) have "fst (checkVulnerabilities e n (cleanVersion v)) = Inr None"
    by (simp add: checkVulnerabilities_def queryAdvisories_def)
  then show ?thesis by (simp add: vulnerableOf_def Let_def)
qed

text \<open>
  Claim C9. For every package of a scanned manifest: a failed registry lookup leaves it
  out of the outdated map; an advisory lookup that is made and fails (whatever the
  error) leaves it out of the vulnerable map, and the lookup is made for every package
  that neither the table nor the names it inherits answer; its outcome is the same in
  every environment that answers alike for this package, so the failures of other
  packages do not reach it; the scan asks the registry once and the advisory API at most
  once for it; and the handler answers HTTP 200.
\<close>

theorem lookup_failures_degrade:
  assumes "(pkg, version) \<in> set (allDependenciesOf pj)"
    and "packageJsonBody req = Some pj" and "requestUser req = Some user" and "user \<noteq> []"
  shows "(registry e pkg = RegistryError \<longrightarrow>
           map_of (outdated (analyzeDependencies e (allDependenciesOf pj))) pkg = None)
     \<and> (\<forall>h. advisoryApi e pkg = AdvisoryError h
              \<and> AdvisoryGet pkg \<in> set (calls (analyzeDependencies e (allDependenciesOf pj))) \<longrightarrow>
           map_of (vulnerable (analyzeDependencies e (allDependenciesOf pj))) pkg = None)
     \<and> (knownVulnerability pkg (cleanVersion version) = None
          \<and> pkg \<notin> set objectPrototypeMembers
          \<and> cleanVersion version \<notin> set objectPrototypeMembers \<longrightarrow>
           AdvisoryGet pkg \<in> set (calls (analyzeDependencies e (allDependenciesOf pj))))
     \<and> (\<forall>e'. registry e' pkg = registry e pkg \<and> advisoryApi e' pkg = advisoryApi e pkg
               \<and> compareVersions e' = compareVersions e \<and> runtimeMember e' = runtimeMember e
               \<and> numberGreater e' = numberGreater e \<and> randomSuffix e' = randomSuffix e \<longrightarrow>
           map_of (outdated (analyzeDependencies e' (allDependenciesOf pj))) pkg
             = map_of (outdated (analyzeDependencies e (allDependenciesOf pj))) pkg
           \<and> map_of (vulnerable (analyzeDependencies e' (allDependenciesOf pj))) pkg
             = map_of (vulnerable (analyzeDependencies e (allDependenciesOf pj))) pkg)
     \<and> count_list (calls (analyzeDependencies e (allDependenciesOf pj))) (RegistryGet pkg) = 1
     \<and> count_list (calls (analyzeDependencies e (allDependenciesOf pj))) (AdvisoryGet pkg) \<le> 1
     \<and> statusCode (fst (postPackageJson e db req)) = 200"
proof -
  let ?deps = "allDependenciesOf pj"
  note d = distinct_allDependenciesOf [of pj]
  have out: "\<And>x. map_of (outdated (analyzeDependencies x ?deps)) pkg = outdatedOf x (pkg, version)"
    using map_of_collect [OF d assms(1)] by (simp add: analyzeDependencies_distinct [OF d])
  have vul: "\<And>x. map_of (vulnerable (analyzeDependencies x ?deps)) pkg = vulnerableOf x (pkg, version)"
    using map_of_collect [OF d assms(1)] by (simp add: analyzeDependencies_distinct [OF d])
  have a: "registry e pkg = RegistryError \<longrightarrow>
           map_of (outdated (analyzeDependencies e ?deps)) pkg = None"
    by (simp add: out outdatedOf_registry_error)
  have b: "\<forall>h. advisoryApi e pkg = AdvisoryError h
              \<and> AdvisoryGet pkg \<in> set (calls (analyzeDependencies e ?deps)) \<longrightarrow>
           map_of (vulnerable (analyzeDependencies e ?deps)) pkg = None"
  proof (intro allI impI)
    fix h
    assume fails: "advisoryApi e pkg = AdvisoryError h
              \<and> AdvisoryGet pkg \<in> set (calls (analyzeDependencies e ?deps))"
    then have "AdvisoryGet pkg \<in> set (concat (map (callsOf e) ?deps))"
      by (simp only: analyzeDependencies_calls)
    then obtain v where v: "(pkg, v) \<in> set ?deps"
      and c: "AdvisoryGet pkg \<in> set (snd (checkVulnerabilities e pkg (cleanVersion v)))"
      using advisory_call_origin by blast
    from d v assms(1) have "v = version" by (rule distinct_entry_unique)
    with c fails have "vulnerableOf e (pkg, version) = None"
      by (intro vulnerableOf_advisory_error) simp_all
    then show "map_of (vulnerable (analyzeDependencies e ?deps)) pkg = None"
      by (simp only: vul)
  qed
  have m: "knownVulnerability pkg (cleanVersion version) = None
          \<and> pkg \<notin> set objectPrototypeMembers
          \<and> cleanVersion version \<notin> set objectPrototypeMembers \<longrightarrow>
           AdvisoryGet pkg \<in> set (calls (analyzeDependencies e ?deps))"
  proof
    assume "knownVulnerability pkg (cleanVersion version) = None
          \<and> pkg \<notin> set objectPrototypeMembers
          \<and> cleanVersion version \<notin> set objectPrototypeMembers"
    then have "tableLookup e pkg (cleanVersion version) = Inr None"
      by (intro unknown_tableLookup) simp_all
    then have "AdvisoryGet pkg \<in> set (callsOf e (pkg, version))"
      by (simp add: callsOf_def table_miss_means_call)
    with assms(1) show "AdvisoryGet pkg \<in> set (calls (analyzeDependencies e ?deps))"
      by (simp only: analyzeDependencies_calls) force
  qed
  have c: "\<forall>e'. registry e' pkg = registry e pkg \<and> advisoryApi e' pkg = advisoryApi e pkg
               \<and> compareVersions e' = compareVersions e \<and> runtimeMember e' = runtimeMember e
               \<and> numberGreater e' = numberGreater e \<and> randomSuffix e' = randomSuffix e \<longrightarrow>
           map_of (outdated (analyzeDependencies e' ?deps)) pkg
             = map_of (outdated (analyzeDependencies e ?deps)) pkg
           \<and> map_of (vulnerable (analyzeDependencies e' ?deps)) pkg
             = map_of (vulnerable (analyzeDependencies e ?deps)) pkg"
  proof (intro allI impI)
    fix e' :: env
    assume same: "registry e' pkg = registry e pkg \<and> advisoryApi e' pkg = advisoryApi e pkg
               \<and> compareVersions e' = compareVersions e \<and> runtimeMember e' = runtimeMember e
               \<and> numberGreater e' = numberGreater e \<and> randomSuffix e' = randomSuffix e"
    then have "outdatedOf e' (pkg, version) = outdatedOf e (pkg, version)"
      by (intro outdatedOf_local) simp_all
    moreover from same have "vulnerableOf e' (pkg, version) = vulnerableOf e (pkg, version)"
      by (intro vulnerableOf_local) simp_all
    ultimately show "map_of (outdated (analyzeDependencies e' ?deps)) pkg
             = map_of (outdated (analyzeDependencies e ?deps)) pkg
           \<and> map_of (vulnerable (analyzeDependencies e' ?deps)) pkg
             = map_of (vulnerable (analyzeDependencies e ?deps)) pkg"
      by (simp only: out vul)
  qed
  from assms(1) have mem: "pkg \<in> set (map fst ?deps)" by force
  with d have one: "count_list (map fst ?deps) pkg = 1"
    by (simp add: count_list_distinct)
  then have r: "count_list (calls (analyzeDependencies e ?deps)) (RegistryGet pkg) = 1"
    by (simp add: analyzeDependencies_calls count_registry_calls)
  have s: "count_list (calls (analyzeDependencies e ?deps)) (AdvisoryGet pkg) \<le> 1"
    using count_advisory_calls [of e ?deps pkg] one by (simp add: analyzeDependencies_calls)
  have t: "statusCode (fst (postPackageJson e db req)) = 200"
    by (simp add: postPackageJson_response [OF assms(2-4)])
  from a b m c r s t show ?thesis by (intro conjI)
qed

theorem lookup_failures_degrade_witness:
  "map_of (outdated (analyzeDependencies offlineEnv (allDependenciesOf knownManifest))) ''express''
     = None
   \<and> map_of (outdated (analyzeDependencies lodashRegistryEnv (allDependenciesOf knownManifest)))
         ''express''
       = map_of (outdated (analyzeDependencies offlineEnv (allDependenciesOf knownManifest)))
           ''express''
   \<and> AdvisoryGet ''express''
       \<in> set (calls (analyzeDependencies offlineEnv (allDependenciesOf knownManifest)))
   \<and> map_of (vulnerable (analyzeDependencies offlineEnv (allDependenciesOf knownManifest))) ''express''
     = None
   \<and> count_list (calls (analyzeDependencies offlineEnv (allDependenciesOf knownManifest)))
       (RegistryGet ''express'') = 1
   \<and> count_list (calls (analyzeDependencies offlineEnv (allDependenciesOf knownManifest)))
       (AdvisoryGet ''express'') \<le> 1
   \<and> statusCode (fst (postPackageJson offlineEnv emptyDatabase (scanOf knownManifest))) = 200"
proof -
  have h1: "(''express'', ''~4.18.2'') \<in> set (allDependenciesOf knownManifest)"
    by (simp add: allDependenciesOf_def knownManifest_def spread_def)
  have h2: "packageJsonBody (scanOf knownManifest) = Some knownManifest"
    by (simp add: scanOf_def)
  have h3: "requestUser (scanOf knownManifest) = Some ''64b7f0c2a1d3e4f5a6b7c8d9''"
    by (simp add: scanOf_def)
  have h4: "''64b7f0c2a1d3e4f5a6b7c8d9'' \<noteq> []" by simp
  have r: "registry offlineEnv ''express'' = RegistryError"
    by (simp add: offlineEnv_def)
  have a: "advisoryApi offlineEnv ''express'' = AdvisoryError \<lparr>status = None, message = None\<rparr>"
    by (simp add: offlineEnv_def)
  have k: "knownVulnerability ''express'' (cleanVersion ''~4.18.2'') = None
      \<and> ''express'' \<notin> set objectPrototypeMembers
      \<and> cleanVersion ''~4.18.2'' \<notin> set objectPrototypeMembers"
    by code_simp
  note t = lookup_failures_degrade [OF h1 h2 h3 h4, of offlineEnv emptyDatabase]
  from t r have c1: "map_of (outdated (analyzeDependencies offlineEnv
      (allDependenciesOf knownManifest))) ''express'' = None"
    by blast
  from t k have made: "AdvisoryGet ''express''
       \<in> set (calls (analyzeDependencies offlineEnv (allDependenciesOf knownManifest)))"
    by blast
  from t a made have c2: "map_of (vulnerable (analyzeDependencies offlineEnv
      (allDependenciesOf knownManifest))) ''express'' = None"
    by blast
  have same: "registry lodashRegistryEnv ''express'' = registry offlineEnv ''express''
      \<and> advisoryApi lodashRegistryEnv ''express'' = advisoryApi offlineEnv ''express''
      \<and> compareVersions lodashRegistryEnv = compareVersions offlineEnv
      \<and> runtimeMember lodashRegistryEnv = runtimeMember offlineEnv
      \<and> numberGreater lodashRegistryEnv = numberGreater offlineEnv
      \<and> randomSuffix lodashRegistryEnv = randomSuffix offlineEnv"
    by (simp add: lodashRegistryEnv_def offlineEnv_def)
  from t same have c0: "map_of (outdated (analyzeDependencies lodashRegistryEnv
        (allDependenciesOf knownManifest))) ''express''
       = map_of (outdated (analyzeDependencies offlineEnv (allDependenciesOf knownManifest)))
           ''express''"
    by blast
  from t have c3: "count_list (calls (analyzeDependencies offlineEnv
      (allDependenciesOf knownManifest))) (RegistryGet ''express'') = 1"
    by (elim conjE)
  from t have c4: "count_list (calls (analyzeDependencies offlineEnv
      (allDependenciesOf knownManifest))) (AdvisoryGet ''express'') \<le> 1"
    by (elim conjE)
  from t have c5: "statusCode (fst (postPackageJson offlineEnv emptyDatabase
      (scanOf knownManifest))) = 200"
    by (elim conjE)
  from c1 c0 made c2 c3 c4 c5 show ?thesis by (intro conjI)
qed

subsection \<open>The rate-limit flag\<close>

text \<open>Whatever the advisory API answers, a package that the table does not answer gets
  its advisory request: no earlier answer suppresses it.\<close>

lemma advisory_requests_never_suppressed:
  assumes "(pkg, version) \<in> set deps"
    and "tableLookup e pkg (cleanVersion version) = Inr None"
  shows "AdvisoryGet pkg \<in> set (calls (analyzeDependencies e deps))"
proof -
  from assms(2) have "AdvisoryGet pkg \<in> set (callsOf e (pkg, version))"
    by (simp add: callsOf_def table_miss_means_call)
  with assms(1) show ?thesis
    by (simp only: analyzeDependencies_calls) force
qed

text \<open>
  Claim C1 at a concrete scan. The advisory API answers every request with HTTP 403 and
  a rate-limit message, an error the test of \<open>analyzeDependencies\<close> accepts. The scan of
  six packages (the sixth is in the second batch) still asks the advisory API for each of
  the six, and its response has no \<^verbatim>\<open>warnings\<close>.
\<close>

theorem rate_limit_answer_not_detected:
  "isRateLimitError
     (HttpFailure \<lparr>status = Some 403,
                   message = Some ''API rate limit exceeded for 203.0.113.7.''\<rparr>)
   \<and> advisoryApi rateLimitedEnv ''express'' =
       AdvisoryError \<lparr>status = Some 403,
                      message = Some ''API rate limit exceeded for 203.0.113.7.''\<rparr>
   \<and> snd (snd (postPackageJson rateLimitedEnv emptyDatabase (scanOf sixManifest))) =
       [RegistryGet ''express'', AdvisoryGet ''express'',
        RegistryGet ''react'', AdvisoryGet ''react'',
        RegistryGet ''moment'', AdvisoryGet ''moment'',
        RegistryGet ''uuid'', AdvisoryGet ''uuid'',
        RegistryGet ''chalk'', AdvisoryGet ''chalk'',
        RegistryGet ''debug'', AdvisoryGet ''debug'']
   \<and> fst (postPackageJson rateLimitedEnv emptyDatabase (scanOf sixManifest)) =
       Response 200
         (ScanReport \<lparr>summaryOutdated = 0, summaryVulnerable = 0, summaryTotal = 6\<rparr>
            ''demo'' ''2025-01-01T00:00:00.000Z'' [] [] None)"
  by code_simp

subsection \<open>The severity of an update\<close>

lemma splitDot_nonempty: "splitDot v \<noteq> []"
  by (induction v) (auto split: list.splits)










subsection \<open>The range test of an advisory\<close>

text \<open>\<open>strLess\<close> is the lexicographic order of the code units.\<close>

lemma strLess_lexord:
  "strLess a b \<longleftrightarrow> (a, b) \<in> lexord {(x, y). (of_char x :: nat) < of_char y}"
proof (induction a b rule: strLess.induct)
  case 1
  then show ?case by simp
next
  case (2 y ys)
  then show ?case by simp
next
  case (3 x xs)
  then show ?case by simp
next
  case (4 x xs y ys)
  show ?case
  proof (cases "(of_char x :: nat) < of_char y")
    case True
    then show ?thesis by simp
  next
    case False
    show ?thesis
    proof (cases "(of_char y :: nat) < of_char x")
      case True
      then have "x \<noteq> y" by auto
      with True False show ?thesis by simp
    next
      case eq: False
      with False have "(of_char x :: nat) = of_char y" by simp
      then have "x = y" by simp
      with 4 False show ?thesis by simp
    qed
  qed
qed

lemma rangeAffects_semver:
  "rangeAffects v (semverRange i None) = Inr (\<not> strLess v i)"
  "f \<noteq> [] \<Longrightarrow> rangeAffects v (semverRange i (Some f)) = Inr (\<not> strLess v i \<and> strLess v f)"
  by (simp_all add: rangeAffects_def semverRange_def strGreaterEq_def)

text \<open>
  Claim C8. The test of a range compares the cleaned version with \<^verbatim>\<open>introduced\<close> and
  \<^verbatim>\<open>fixed\<close> as strings, in the lexicographic order of the code units. That order puts
  10.0.0 below 9.0.0, which the numeric triples order the other way, so version 10.0.0
  is found outside a range introduced at 9.0.0.
\<close>

theorem range_test_is_lexical:
  "(\<forall>v i. rangeAffects v (semverRange i None) = Inr (\<not> strLess v i))
   \<and> (\<forall>v i f. f \<noteq> [] \<longrightarrow>
         rangeAffects v (semverRange i (Some f)) = Inr (\<not> strLess v i \<and> strLess v f))
   \<and> (\<forall>a b. strLess a b \<longleftrightarrow> (a, b) \<in> lexord {(x, y). (of_char x :: nat) < of_char y})
   \<and> strLess ''10.0.0'' ''9.0.0''
   \<and> tripleLess (versionTriple ''9.0.0'') (versionTriple ''10.0.0'')
   \<and> rangeAffects ''10.0.0'' (semverRange ''9.0.0'' None) = Inr False"
proof -
  have "strLess ''10.0.0'' ''9.0.0''" by code_simp
  moreover have "tripleLess (versionTriple ''9.0.0'') (versionTriple ''10.0.0'')" by code_simp
  moreover have "rangeAffects ''10.0.0'' (semverRange ''9.0.0'' None) = Inr False" by code_simp
  ultimately show ?thesis
    using rangeAffects_semver strLess_lexord by blast
qed

theorem range_test_is_lexical_witness:
  "''9.0.0'' \<noteq> []
   \<and> rangeAffects ''10.0.0'' (semverRange ''1.0.0'' (Some ''9.0.0'')) = Inr True
   \<and> tripleLess (versionTriple ''9.0.0'') (versionTriple ''10.0.0'')"
proof -
  have ne: "''9.0.0'' \<noteq> []" by simp
  have a: "\<not> strLess ''10.0.0'' ''1.0.0''" by code_simp
  have b: "strLess ''10.0.0'' ''9.0.0''" by code_simp
  from range_test_is_lexical have
    "rangeAffects ''10.0.0'' (semverRange ''1.0.0'' (Some ''9.0.0''))
       = Inr (\<not> strLess ''10.0.0'' ''1.0.0'' \<and> strLess ''10.0.0'' ''9.0.0'')"
    using ne by blast
  with a b have "rangeAffects ''10.0.0'' (semverRange ''1.0.0'' (Some ''9.0.0'')) = Inr True"
    by simp
  with ne range_test_is_lexical show ?thesis by blast
qed

subsection \<open>The lodash example\<close>

lemma lodash_dependencies: "allDependenciesOf lodashManifest = [(''lodash'', ''^4.17.20'')]"
  by (simp add: allDependenciesOf_def lodashManifest_def spread_def)

lemma lodash_clean: "cleanVersion ''^4.17.20'' = ''4.17.20''"
  by (simp add: rangeOperators_def)







subsection \<open>The comparator on plain versions\<close>

lemma splitDot_chars:
  "c \<in> set v \<Longrightarrow> c = CHR ''.'' \<or> (\<exists>p \<in> set (splitDot v). c \<in> set p)"
proof (induction v)
  case Nil
  then show ?case by simp
next
  case (Cons d ds)
  obtain q qs where q: "splitDot ds = q # qs"
    using splitDot_nonempty [of ds] by (cases "splitDot ds") auto
  show ?case
  proof (cases "d = CHR ''.''")
    case True
    with Cons show ?thesis by auto
  next
    case False
    with Cons q show ?thesis by auto
  qed
qed

lemma splitDot_first:
  assumes "splitDot v = p # ps" and "p \<noteq> []"
  shows "\<exists>c cs. v = c # cs \<and> c \<in> set p"
proof (cases v)
  case Nil
  with assms show ?thesis by simp
next
  case (Cons d ds)
  obtain q qs where q: "splitDot ds = q # qs"
    using splitDot_nonempty [of ds] by (cases "splitDot ds") auto
  from assms Cons q show ?thesis by (cases "d = CHR ''.''") auto
qed

lemma digit_chars:
  assumes "isDigit c"
  shows "\<not> isPrefixChar c" and "notTagStart c" and "c \<noteq> CHR ''-''"
    and "c \<noteq> CHR ''*''" and "c \<noteq> CHR ''x''" and "c \<noteq> CHR ''X''"
  using assms by (auto simp: isDigit_def isPrefixChar_def notTagStart_def)

lemma plainNumber_digits: "plainNumber s \<Longrightarrow> c \<in> set s \<Longrightarrow> isDigit c"
  by (simp add: plainNumber_def list_all_iff)

lemma plainVersion_chars:
  assumes "plainVersion v" and "c \<in> set v"
  shows "notTagStart c"
proof -
  from splitDot_chars [OF assms(2)] show ?thesis
  proof
    assume "c = CHR ''.''"
    then show ?thesis by (simp add: notTagStart_def)
  next
    assume "\<exists>p \<in> set (splitDot v). c \<in> set p"
    then obtain p where p: "p \<in> set (splitDot v)" "c \<in> set p" by blast
    with assms(1) have "plainNumber p" by (simp add: plainVersion_def Let_def list_all_iff)
    then have "isDigit c" using p(2) by (rule plainNumber_digits)
    then show ?thesis by (rule digit_chars)
  qed
qed

lemma plainVersion_parse:
  assumes "plainVersion v"
  shows "validateAndParse v = Some (splitDot v, None)"
proof -
  obtain s0 others where segs: "splitDot v = s0 # others"
    using splitDot_nonempty [of v] by (cases "splitDot v") auto
  from assms segs have plain: "plainNumber s0" "list_all plainNumber others" "length others \<le> 2"
    by (simp_all add: plainVersion_def)
  from plain(1) have ne: "s0 \<noteq> []" by (simp add: plainNumber_def)
  with segs obtain c cs where v: "v = c # cs" and c: "c \<in> set s0"
    using splitDot_first by blast
  from plain(1) c have "isDigit c" by (rule plainNumber_digits)
  then have "\<not> isPrefixChar c" by (rule digit_chars)
  with v have pre: "dropWhile isPrefixChar v = v" by simp
  have all: "\<forall>d \<in> set v. notTagStart d"
    using plainVersion_chars [OF assms] by blast
  then have main: "takeWhile notTagStart v = v" and suffix: "dropWhile notTagStart v = []"
    by simp_all
  from plain(1) have num: "isNumeric s0" by (simp add: plainNumber_def isNumeric_def)
  from plain(2) have segsok: "list_all validSegment others"
    by (induction others) (simp_all add: plainNumber_def validSegment_def isNumeric_def)
  from plain(3) have len: "\<not> 3 < length others" by simp
  show ?thesis
    by (simp add: validateAndParse_def Let_def pre main suffix segs num segsok len)
qed

lemma parseInt_plain:
  assumes "plainNumber s"
  shows "parseInt s = Some (int (digitsValue s))" and "exactInt (parseInt s)"
proof -
  from assms obtain c cs where s: "s = c # cs" by (cases s) (auto simp: plainNumber_def)
  with assms have "isDigit c" by (auto intro: plainNumber_digits)
  then have minus: "c \<noteq> CHR ''-''" by (rule digit_chars)
  from assms have "takeWhile isDigit s = s" by (simp add: plainNumber_def list_all_iff)
  with s minus show p: "parseInt s = Some (int (digitsValue s))" by (simp add: parseInt_def)
  from assms have "int (digitsValue s) < 2 ^ 53" by (simp add: plainNumber_def)
  then show "exactInt (parseInt s)" by (simp add: p exactInt_def)
qed

lemma plain_not_wildcard:
  assumes "plainNumber s"
  shows "\<not> isWildcard s"
proof
  assume "isWildcard s"
  then consider "s = ''*''" | "s = ''x''" | "s = ''X''" by (auto simp: isWildcard_def)
  then show False
  proof cases
    case 1
    with assms have "isDigit (CHR ''*'')" by (auto intro: plainNumber_digits)
    then show False by (simp add: isDigit_def)
  next
    case 2
    with assms have "isDigit (CHR ''x'')" by (auto intro: plainNumber_digits)
    then show False by (simp add: isDigit_def)
  next
    case 3
    with assms have "isDigit (CHR ''X'')" by (auto intro: plainNumber_digits)
    then show False by (simp add: isDigit_def)
  qed
qed

lemma compareStrings_plain:
  assumes "plainNumber a" and "plainNumber b"
  shows "compareStrings rounded a b =
     (if digitsValue b < digitsValue a then 1
      else if digitsValue a < digitsValue b then - 1 else 0)"
proof -
  note pa = parseInt_plain [OF assms(1)]
  note pb = parseInt_plain [OF assms(2)]
  have "compareStrings rounded a b =
      (case (parseInt a, parseInt b) of
              (Some x, Some y) \<Rightarrow> (if y < x then 1 else if x < y then - 1 else 0)
            | (Some x, None) \<Rightarrow> strCompare (showInt x) b
            | (None, Some y) \<Rightarrow> strCompare a (showInt y)
            | (None, None) \<Rightarrow> strCompare a b)"
    by (simp add: compareStrings_def plain_not_wildcard [OF assms(1)]
        plain_not_wildcard [OF assms(2)] pa(2) pb(2))
  then show ?thesis by (simp add: pa(1) pb(1))
qed

lemma plain_zero: "plainNumber ''0''" "digitsValue ''0'' = 0"
  by (simp_all add: plainNumber_def isDigit_def digitsValue_def digitValue_def)

lemma compareStrings_zero:
  assumes "plainNumber a"
  shows "compareStrings rounded a ''0'' = (if 0 < digitsValue a then 1 else 0)"
    and "compareStrings rounded ''0'' a = (if 0 < digitsValue a then - 1 else 0)"
  using compareStrings_plain [OF assms plain_zero(1), of rounded]
    compareStrings_plain [OF plain_zero(1) assms, of rounded]
  by (simp_all add: plain_zero(2))

lemma short_list:
  assumes "length ps \<le> 3" and "ps \<noteq> []"
  obtains a where "ps = [a]" | a b where "ps = [a, b]" | a b c where "ps = [a, b, c]"
proof -
  from assms show ?thesis
    by (cases ps; cases "tl ps"; cases "tl (tl ps)"; cases "tl (tl (tl ps))") (auto intro: that)
qed

lemma compareSegments_plain:
  assumes "length ps \<le> 3" and "ps \<noteq> []" and "list_all plainNumber ps"
    and "length qs \<le> 3" and "qs \<noteq> []" and "list_all plainNumber qs"
  shows "0 < compareSegments rounded qs ps \<longleftrightarrow>
     tripleLess (component ps 0, component ps 1, component ps 2)
                (component qs 0, component qs 1, component qs 2)"
proof -
  note simps = compareStrings_plain compareStrings_zero component_def Let_def
  from assms(1,2) show ?thesis
  proof (cases ps rule: short_list)
    case (1 a)
    from assms(4,5) show ?thesis
    proof (cases qs rule: short_list)
      case (1 a')
      with \<open>ps = [a]\<close> assms(3,6) show ?thesis by (simp add: simps)
    next
      case (2 a' b')
      with \<open>ps = [a]\<close> assms(3,6) show ?thesis by (simp add: simps)
    next
      case (3 a' b' c')
      with \<open>ps = [a]\<close> assms(3,6) show ?thesis by (simp add: simps)
    qed
  next
    case (2 a b)
    from assms(4,5) show ?thesis
    proof (cases qs rule: short_list)
      case (1 a')
      with \<open>ps = [a, b]\<close> assms(3,6) show ?thesis by (simp add: simps)
    next
      case (2 a' b')
      with \<open>ps = [a, b]\<close> assms(3,6) show ?thesis by (simp add: simps)
    next
      case (3 a' b' c')
      with \<open>ps = [a, b]\<close> assms(3,6) show ?thesis by (simp add: simps)
    qed
  next
    case (3 a b c)
    from assms(4,5) show ?thesis
    proof (cases qs rule: short_list)
      case (1 a')
      with \<open>ps = [a, b, c]\<close> assms(3,6) show ?thesis by (simp add: simps)
    next
      case (2 a' b')
      with \<open>ps = [a, b, c]\<close> assms(3,6) show ?thesis by (simp add: simps)
    next
      case (3 a' b' c')
      with \<open>ps = [a, b, c]\<close> assms(3,6) show ?thesis by (simp add: simps)
    qed
  qed
qed

text \<open>The comparator of the package throws exactly when it rejects one of the two
  strings.\<close>

lemma compareVersionsLib_throws:
  "compareVersionsLib rounded v1 v2 = None \<longleftrightarrow>
     validateAndParse v1 = None \<or> validateAndParse v2 = None"
  by (simp add: compareVersionsLib_def Let_def split: option.splits prod.splits)

text \<open>On plain versions, \<open>isNewerVersion\<close> with the package's comparator is the strict
  order of the numeric triples.\<close>

lemma isNewerVersion_plain:
  assumes "plainVersion cur" and "plainVersion lat"
    and "compareVersions e = compareVersionsLib rounded"
  shows "isNewerVersion e cur lat \<longleftrightarrow> tripleLess (versionTriple cur) (versionTriple lat)"
proof -
  from assms(1) have c: "length (splitDot cur) \<le> 3" "list_all plainNumber (splitDot cur)"
    by (simp_all add: plainVersion_def Let_def)
  from assms(2) have l: "length (splitDot lat) \<le> 3" "list_all plainNumber (splitDot lat)"
    by (simp_all add: plainVersion_def Let_def)
  have "isNewerVersion e cur lat \<longleftrightarrow> 0 < compareSegments rounded (splitDot lat) (splitDot cur)"
    by (simp add: isNewerVersion_def assms(3) compareVersionsLib_def
        plainVersion_parse [OF assms(1)] plainVersion_parse [OF assms(2)] Let_def)
  also have "\<dots> \<longleftrightarrow> tripleLess (versionTriple cur) (versionTriple lat)"
    using compareSegments_plain [OF c(1) splitDot_nonempty c(2) l(1) splitDot_nonempty l(2)]
    by (simp add: versionTriple_def Let_def)
  finally show ?thesis .
qed

lemma tripleLess_irrefl: "\<not> tripleLess t t"
  by (cases t) auto

text \<open>What the scan reads of one package whose latest version was fetched.\<close>

lemma marked_iff_newer:
  assumes "(pkg, version) \<in> set (allDependenciesOf pj)" and "pkg \<noteq> ''__proto__''"
    and "registry e pkg = RegistryData (Some lat)" and "lat \<noteq> []"
  shows "map_of (outdated (analyzeDependencies e (allDependenciesOf pj))) pkg \<noteq> None
      \<longleftrightarrow> isNewerVersion e (cleanVersion version) lat"
proof -
  note d = distinct_allDependenciesOf [of pj]
  from assms(3,4) have latest: "getLatestVersion e pkg = Some lat"
    by (simp add: getLatestVersion_def)
  have "map_of (outdated (analyzeDependencies e (allDependenciesOf pj))) pkg
      = outdatedOf e (pkg, version)"
    using map_of_collect [OF d assms(1)] by (simp add: analyzeDependencies_distinct [OF d])
  then show ?thesis
    by (simp add: outdatedOf_def latest Let_def assms(2))
qed

text \<open>
  Claim C6, as amended. Take a package of a scanned manifest, not named \<^verbatim>\<open>__proto__\<close>,
  for which the registry answers a non-empty latest version. The scan marks it outdated
  exactly when \<^verbatim>\<open>compareVersions(latest, cleaned)\<close> returns a positive number; when the
  comparison throws, the package is not marked. With the comparator of the package
  \<^verbatim>\<open>compare-versions\<close> (whatever it returns on integers of \<open>2 ^ 53\<close> and more): a package
  whose cleaned or latest version the comparator rejects is not marked; and when both
  are plain versions (one to three components, each a non-empty string of decimal digits
  of a value below \<open>2 ^ 53\<close>), \<open>isNewerVersion\<close> agrees with the strict order of the
  numeric triples, a missing component counting as 0, the package is marked exactly when
  the latest version is greater in that order, and equal triples are never marked.
\<close>

theorem outdated_iff_triple_greater:
  assumes "(pkg, version) \<in> set (allDependenciesOf pj)" and "pkg \<noteq> ''__proto__''"
    and "registry e pkg = RegistryData (Some lat)" and "lat \<noteq> []"
  shows "(map_of (outdated (analyzeDependencies e (allDependenciesOf pj))) pkg \<noteq> None \<longleftrightarrow>
            (\<exists>r. compareVersions e lat (cleanVersion version) = Some r \<and> 0 < r))
     \<and> (compareVersions e lat (cleanVersion version) = None \<longrightarrow>
            map_of (outdated (analyzeDependencies e (allDependenciesOf pj))) pkg = None)
     \<and> (\<forall>rounded. compareVersions e = compareVersionsLib rounded \<longrightarrow>
           (validateAndParse (cleanVersion version) = None \<or> validateAndParse lat = None \<longrightarrow>
              map_of (outdated (analyzeDependencies e (allDependenciesOf pj))) pkg = None)
           \<and> (plainVersion (cleanVersion version) \<and> plainVersion lat \<longrightarrow>
                (isNewerVersion e (cleanVersion version) lat \<longleftrightarrow>
                   tripleLess (versionTriple (cleanVersion version)) (versionTriple lat))
                \<and> (map_of (outdated (analyzeDependencies e (allDependenciesOf pj))) pkg \<noteq> None
                     \<longleftrightarrow> tripleLess (versionTriple (cleanVersion version)) (versionTriple lat))
                \<and> (versionTriple (cleanVersion version) = versionTriple lat \<longrightarrow>
                     map_of (outdated (analyzeDependencies e (allDependenciesOf pj))) pkg
                       = None)))"
proof -
  let ?marked = "map_of (outdated (analyzeDependencies e (allDependenciesOf pj))) pkg \<noteq> None"
  let ?unmarked = "map_of (outdated (analyzeDependencies e (allDependenciesOf pj))) pkg = None"
  let ?cv = "cleanVersion version"
  note marked = marked_iff_newer [OF assms]
  have a: "?marked \<longleftrightarrow> (\<exists>r. compareVersions e lat ?cv = Some r \<and> 0 < r)"
    by (simp only: marked isNewerVersion_def split: option.splits) simp
  have b: "compareVersions e lat ?cv = None \<longrightarrow> ?unmarked"
  proof
    assume "compareVersions e lat ?cv = None"
    then have "\<not> (\<exists>r. compareVersions e lat ?cv = Some r \<and> 0 < r)" by simp
    with a show ?unmarked by blast
  qed
  have c: "\<forall>rounded. compareVersions e = compareVersionsLib rounded \<longrightarrow>
           (validateAndParse ?cv = None \<or> validateAndParse lat = None \<longrightarrow> ?unmarked)
           \<and> (plainVersion ?cv \<and> plainVersion lat \<longrightarrow>
                (isNewerVersion e ?cv lat \<longleftrightarrow> tripleLess (versionTriple ?cv) (versionTriple lat))
                \<and> (?marked \<longleftrightarrow> tripleLess (versionTriple ?cv) (versionTriple lat))
                \<and> (versionTriple ?cv = versionTriple lat \<longrightarrow> ?unmarked))"
  proof (intro allI impI conjI)
    fix rounded
    assume lib: "compareVersions e = compareVersionsLib rounded"
    assume "validateAndParse ?cv = None \<or> validateAndParse lat = None"
    then have "compareVersions e lat ?cv = None"
      by (auto simp: lib compareVersionsLib_throws)
    with b show ?unmarked by blast
  next
    fix rounded
    assume lib: "compareVersions e = compareVersionsLib rounded"
      and plain: "plainVersion ?cv \<and> plainVersion lat"
    then show newer: "isNewerVersion e ?cv lat
        \<longleftrightarrow> tripleLess (versionTriple ?cv) (versionTriple lat)"
      by (intro isNewerVersion_plain) simp_all
    with marked show "?marked \<longleftrightarrow> tripleLess (versionTriple ?cv) (versionTriple lat)"
      by blast
  next
    fix rounded
    assume lib: "compareVersions e = compareVersionsLib rounded"
      and plain: "plainVersion ?cv \<and> plainVersion lat"
      and same: "versionTriple ?cv = versionTriple lat"
    from lib plain have "isNewerVersion e ?cv lat
        \<longleftrightarrow> tripleLess (versionTriple ?cv) (versionTriple lat)"
      by (intro isNewerVersion_plain) simp_all
    with same tripleLess_irrefl [of "versionTriple lat"]
    have "\<not> isNewerVersion e ?cv lat" by simp
    with marked show ?unmarked by blast
  qed
  from a b c show ?thesis by (intro conjI)
qed

lemma openRange_dependencies: "allDependenciesOf openRangeManifest = [(''lodash'', ''>='')]"
  by (simp add: allDependenciesOf_def openRangeManifest_def spread_def)

theorem outdated_iff_triple_greater_witness:
  "isNewerVersion lodashEnv ''4.17.20'' ''4.17.21''
   \<and> tripleLess (versionTriple ''4.17.20'') (versionTriple ''4.17.21'')
   \<and> map_of (outdated (analyzeDependencies lodashEnv (allDependenciesOf lodashManifest))) ''lodash''
       \<noteq> None
   \<and> map_of (outdated (analyzeDependencies currentEnv (allDependenciesOf lodashManifest))) ''lodash''
       = None
   \<and> map_of (outdated (analyzeDependencies minorEnv (allDependenciesOf openRangeManifest)))
         ''lodash''
       = None"
proof -
  have p: "''lodash'' \<noteq> ''__proto__''" by simp
  have h1: "(''lodash'', ''^4.17.20'') \<in> set (allDependenciesOf lodashManifest)"
    by (simp add: lodash_dependencies)
  have h2: "registry lodashEnv ''lodash'' = RegistryData (Some ''4.17.21'')"
    by (simp add: lodashEnv_def)
  have h3: "plainVersion (cleanVersion ''^4.17.20'') \<and> plainVersion ''4.17.21''" by code_simp
  have h4: "''4.17.21'' \<noteq> []" by simp
  have h5: "compareVersions lodashEnv = compareVersionsLib (\<lambda>a b. 0)"
    by (simp add: lodashEnv_def offlineEnv_def)
  have g2: "registry currentEnv ''lodash'' = RegistryData (Some ''4.17.20'')"
    by (simp add: currentEnv_def)
  have g3: "plainVersion (cleanVersion ''^4.17.20'') \<and> plainVersion ''4.17.20''" by code_simp
  have g4: "''4.17.20'' \<noteq> []" by simp
  have g5: "compareVersions currentEnv = compareVersionsLib (\<lambda>a b. 0)"
    by (simp add: currentEnv_def offlineEnv_def)
  have g6: "versionTriple (cleanVersion ''^4.17.20'') = versionTriple ''4.17.20''"
    by (simp only: lodash_clean)
  have k1: "(''lodash'', ''>='') \<in> set (allDependenciesOf openRangeManifest)"
    by (simp add: openRange_dependencies)
  have k2: "registry minorEnv ''lodash'' = RegistryData (Some ''1.2.0'')"
    by (simp add: minorEnv_def)
  have k3: "validateAndParse (cleanVersion ''>='') = None" by code_simp
  have k4: "''1.2.0'' \<noteq> []" by simp
  have k5: "compareVersions minorEnv = compareVersionsLib (\<lambda>a b. 0)"
    by (simp add: minorEnv_def offlineEnv_def)
  have t: "tripleLess (versionTriple (cleanVersion ''^4.17.20'')) (versionTriple ''4.17.21'')"
    by code_simp
  note lod = outdated_iff_triple_greater [OF h1 p h2 h4]
  note cur = outdated_iff_triple_greater [OF h1 p g2 g4]
  note opn = outdated_iff_triple_greater [OF k1 p k2 k4]
  from lod h5 h3 have n: "isNewerVersion lodashEnv (cleanVersion ''^4.17.20'') ''4.17.21''
      \<longleftrightarrow> tripleLess (versionTriple (cleanVersion ''^4.17.20'')) (versionTriple ''4.17.21'')"
    by blast
  from lod h5 h3 have m: "map_of (outdated (analyzeDependencies lodashEnv
        (allDependenciesOf lodashManifest))) ''lodash'' \<noteq> None
      \<longleftrightarrow> tripleLess (versionTriple (cleanVersion ''^4.17.20'')) (versionTriple ''4.17.21'')"
    by blast
  from cur g5 g3 g6 have c1: "map_of (outdated (analyzeDependencies currentEnv
        (allDependenciesOf lodashManifest))) ''lodash'' = None"
    by blast
  from opn k5 k3 have c2: "map_of (outdated (analyzeDependencies minorEnv
        (allDependenciesOf openRangeManifest))) ''lodash'' = None"
    by blast
  from n t have c3: "isNewerVersion lodashEnv ''4.17.20'' ''4.17.21''"
    by (simp only: lodash_clean)
  from t have c4: "tripleLess (versionTriple ''4.17.20'') (versionTriple ''4.17.21'')"
    by (simp only: lodash_clean)
  from m t have c5: "map_of (outdated (analyzeDependencies lodashEnv
        (allDependenciesOf lodashManifest))) ''lodash'' \<noteq> None"
    by blast
  from c3 c4 c5 c1 c2 show ?thesis by (intro conjI)
qed

text \<open>
  Claim C6, as stated, fails outside the plain versions. The comparator rejects the
  empty string, which is what cleaning leaves of the range \<^verbatim>\<open>>=\<close>: its triple is
  (0, 0, 0), below that of 1.0.0 and of 1.2.0, and the package is not marked: the scan
  of a manifest that declares lodash at \<^verbatim>\<open>>=\<close>, with the registry answering 1.2.0, has
  an empty outdated map. The comparator also orders a fourth component: 1.2.3.5 is
  newer than 1.2.3.4 although the triples are equal.
\<close>

theorem comparator_departs_from_triples:
  "cleanVersion ''>='' = ''''
   \<and> tripleLess (versionTriple '''') (versionTriple ''1.0.0'')
   \<and> \<not> isNewerVersion offlineEnv '''' ''1.0.0''
   \<and> tripleLess (versionTriple '''') (versionTriple ''1.2.0'')
   \<and> outdated (analyzeDependencies minorEnv (allDependenciesOf openRangeManifest)) = []
   \<and> versionTriple ''1.2.3.4'' = versionTriple ''1.2.3.5''
   \<and> isNewerVersion offlineEnv ''1.2.3.4'' ''1.2.3.5''"
  by code_simp

end
